theory Spec2Isabelle
  imports Complex_Main
begin

section \<open>The embed core of rev-sdk-js: \<open>src/embed/VbrickEmbed.ts\<close>\<close>

text \<open>
  The class \<open>VbrickEmbed\<close> owns one iframe and one event bus over it. Its methods are
  modelled as functions on a record that holds the fields of the object together with
  the part of the browser the methods act on: the children of the container element, the
  event buses that were constructed, the promises that were created, the timers, the
  microtask queue and a clock in milliseconds.

  Promise reactions (\<open>then\<close>, \<open>catch\<close>, the code after an \<open>await\<close>) do not run inside the
  call that installs them. They are jobs of the microtask queue, which \<open>drain\<close>, the
  microtask checkpoint at the end of every task of the event loop, runs first in, first
  out. A callback that sits further down a promise chain runs that many jobs later: the
  jobs before it only pass the settlement on to the next promise of the chain. A queued
  job therefore carries the number of such jobs that come before the callback. The
  promise at the end of a chain is marked as settled when its callback runs; the jobs
  that carry the result to it have no other effect. The calls of the logger are left
  out.
\<close>

subsection \<open>Data of the declarations (\<open>dist/rev-sdk.d.ts\<close>)\<close>

datatype PlayerStatus = Initializing | Playing | Paused | Buffering | Seeking | Ended | Error

datatype TokenType = JWT | ACCESS_TOKEN | GUEST_REGISTRATION

record VbrickSDKToken =
  tokenType :: TokenType
  tokenValue :: string
  issuer :: string

record ISubtitles =
  language :: "string option"
  enabled :: bool

text \<open>JavaScript values, for the payloads that the code treats as \<open>any\<close>.\<close>

datatype jsval =
    JUndefined
  | JBool bool
  | JNum rat
  | JStr string
  | JArr "jsval list"
  | JObj "(string \<times> jsval) list"

type_synonym jsobject = "(string \<times> jsval) list"

text \<open>
  The options that \<open>VbrickEmbed\<close> reads. \<open>timeoutSeconds\<close> is a whole number of seconds
  here; the other options of \<open>VbrickEmbedConfig\<close> only reach the query string of the
  iframe URL, which the subclass computes.
\<close>

record VbrickEmbedConfig =
  token :: "VbrickSDKToken option"
  timeoutSeconds :: "int option"
  width :: "string option"
  height :: "string option"
  className :: "string option"

text \<open>
  The typed event catalogue \<open>TVbrickMessages\<close>: the events the embed consumes, with their
  payloads, and one constructor for the remaining player and webcast events.
\<close>

datatype message =
    Load
  | AuthChanged
  | ErrorEvent string
  | VideoLoaded jsobject
  | PlayerStatusChanged PlayerStatus
  | VolumeChanged rat
  | SubtitlesChanged ISubtitles
  | WebcastLoaded jsobject
  | OtherEvent string jsval

fun eventName :: "message \<Rightarrow> string" where
  "eventName Load = ''load''"
| "eventName AuthChanged = ''authChanged''"
| "eventName (ErrorEvent m) = ''error''"
| "eventName (VideoLoaded e) = ''videoLoaded''"
| "eventName (PlayerStatusChanged st) = ''playerStatusChanged''"
| "eventName (VolumeChanged v) = ''volumeChanged''"
| "eventName (SubtitlesChanged sub) = ''subtitlesChanged''"
| "eventName (WebcastLoaded e) = ''webcastLoaded''"
| "eventName (OtherEvent n d) = n"

subsection \<open>Failures, promises, listeners\<close>

text \<open>
  What a promise is rejected with or a call throws: the string of \<open>Promise.reject\<close>, the
  payload of a remote \<open>error\<close> event, the expiry of the timer of \<open>awaitEvent\<close>, or the
  \<open>TypeError\<close> of a method call on a field that is still \<open>undefined\<close>.
\<close>

datatype failure = Reason string | Remote message | TimedOut | TypeError string

datatype promise_state = Pending | Fulfilled | Rejected failure

text \<open>
  Listener references. The four closures of \<open>initializeEmbed\<close>; the closure
  \<open>(e) => setTimeout(() => listener(e))\<close> that \<open>on\<close> builds around the callback number
  \<open>c\<close> of the host page; that callback itself; and the two one-shot listeners of the
  \<open>awaitEvent\<close> call number \<open>w\<close>. Two references are the same object exactly when the
  terms are equal; wrappers are never compared with each other by the code.
\<close>

datatype listener =
    VideoLoadedHandler
  | WebcastLoadedHandler
  | PlayerStatusHandler
  | SubtitlesHandler
  | Deferred nat
  | Client nat
  | AwaitResolve nat
  | AwaitReject nat

text \<open>
  What the code does when the promise of an \<open>awaitEvent\<close> settles.
  \<open>InitAll p tok timeout\<close>: the chain \<open>Promise.all([token, load]).then(..).catch(..)\<close> of
  \<open>initialize\<close>, whose result is promise \<open>p\<close>, with the outcome \<open>tok\<close> of the token
  promise and the \<open>timeout\<close> constant of that call.
  \<open>Unobserved\<close>: the promise of the second \<open>awaitEvent\<close> of \<open>initialize\<close>, which nobody
  reads. \<open>UpdateTokenAwait p\<close>: the rest of \<open>updateToken\<close>, whose result is promise \<open>p\<close>.
\<close>

datatype continuation =
    InitAll nat "failure + jsval" "int option"
  | Unobserved
  | UpdateTokenAwait nat

datatype microtask =
    Settled continuation "failure + message"
  | InitTokenRejected nat failure
  | UpdateTokenResume nat "failure + jsval"

datatype timer_task = AwaitTimeout nat | CallClient nat message

record timer =
  timerId :: nat
  due :: nat
  task :: timer_task

record pending_await =
  awaitBus :: nat
  successEvent :: string
  failEvent :: string
  awaitTimer :: "nat option"
  cont :: continuation

datatype outbound = Publish string jsval | PublishError string

record HTMLIFrameElement =
  elementId :: nat
  frameborder :: string
  allowFullScreen :: string
  allow :: string
  elemWidth :: string
  elemHeight :: string
  src :: string
  elemClassName :: "string option"

text \<open>
  Modelled from the spec: the class \<open>EventBus\<close> (\<open>src/embed/EventBus.ts\<close>) is not among the
  sources. Its state is the iframe it is bound to, the listeners by event name in the
  order of registration, the messages sent to the content window, the local errors
  emitted, and whether it was destroyed.
\<close>

record EventBus =
  boundIframe :: nat
  handlers :: "(string \<times> listener) list"
  sent :: "outbound list"
  localErrors :: "(string \<times> failure) list"
  isDestroyed :: bool

text \<open>
  A call of a callback of the host page: which callback, the payload it was given, and the
  value of the \<open>playerStatus\<close> getter at that moment.
\<close>

record client_call =
  callee :: nat
  payload :: message
  observedStatus :: PlayerStatus

record embed =
  playerStatus :: PlayerStatus
  volume :: "rat option"
  currentSubtitles :: ISubtitles
  info :: "jsobject option"
  iframe :: "nat option"
  iframeUrl :: string
  eventBus :: "nat option"
  init :: "nat option"
  config :: VbrickEmbedConfig
  container :: "HTMLIFrameElement list"
  buses :: "nat \<Rightarrow> EventBus"
  promises :: "nat \<Rightarrow> promise_state"
  awaits :: "(nat \<times> pending_await) list"
  timers :: "timer list"
  microtasks :: "(nat \<times> microtask) list"
  now :: nat
  fresh :: nat
  nextTimer :: nat
  calls :: "client_call list"

text \<open>
  The constructor. \<open>url\<close> is the result of the abstract \<open>getEmbedUrl(id, config)\<close>.
  \<open>_playerStatus\<close> starts as \<open>Initializing\<close>, \<open>_currentSubtitles\<close> as \<open>{enabled: false}\<close>;
  \<open>_volume\<close>, \<open>_info\<close>, \<open>iframe\<close>, \<open>eventBus\<close> and \<open>init\<close> have no initialiser and
  are \<open>undefined\<close>.
\<close>

definition emptyBus :: EventBus where
  "emptyBus = \<lparr>boundIframe = 0, handlers = [], sent = [], localErrors = [], isDestroyed = False\<rparr>"

definition VbrickEmbed_new :: "string \<Rightarrow> VbrickEmbedConfig \<Rightarrow> embed" where
  "VbrickEmbed_new url cfg =
     \<lparr>playerStatus = Initializing, volume = None,
      currentSubtitles = \<lparr>language = None, enabled = False\<rparr>,
      info = None, iframe = None, iframeUrl = url, eventBus = None, init = None,
      config = cfg, container = [], buses = (\<lambda>b. emptyBus),
      promises = (\<lambda>p. Pending), awaits = [], timers = [], microtasks = [],
      now = 0, fresh = 0, nextTimer = 0, calls = []\<rparr>"

text \<open>The getter \<open>isLive\<close>: \<open>this.info?.isLive\<close>.\<close>

definition isLive :: "embed \<Rightarrow> jsval" where
  "isLive s = (case info s of None \<Rightarrow> JUndefined
     | Some i \<Rightarrow> (case map_of i ''isLive'' of None \<Rightarrow> JUndefined | Some v \<Rightarrow> v))"

subsection \<open>The browser: timers and the children of the container\<close>

text \<open>
  \<open>setTimeout(k, d)\<close>: a new timer that is due \<open>d\<close> milliseconds from now. The handles of
  timers are numbers of their own sequence.
\<close>

definition setTimeout :: "timer_task \<Rightarrow> nat \<Rightarrow> embed \<Rightarrow> nat \<times> embed" where
  "setTimeout k d s =
     (nextTimer s,
      s\<lparr>timers := timers s @ [\<lparr>timerId = nextTimer s, due = now s + d, task = k\<rparr>],
        nextTimer := Suc (nextTimer s)\<rparr>)"

definition clearTimeout :: "nat option \<Rightarrow> embed \<Rightarrow> embed" where
  "clearTimeout i s = s\<lparr>timers := filter (\<lambda>t. Some (timerId t) \<noteq> i) (timers s)\<rparr>"

subsection \<open>The event bus\<close>

text \<open>
  Modelled from the spec: the methods of \<open>EventBus\<close>, which is not among the sources
  (section 4.1 of the specification). A bus is addressed by its number in \<open>buses\<close>.
\<close>

definition updBus :: "nat \<Rightarrow> (EventBus \<Rightarrow> EventBus) \<Rightarrow> embed \<Rightarrow> embed" where
  "updBus b f s = s\<lparr>buses := (buses s)(b := f (buses s b))\<rparr>"

text \<open>Modelled from the spec: \<open>new EventBus(iframe, config)\<close>, bound to one iframe.\<close>

definition EventBus_new :: "nat \<Rightarrow> embed \<Rightarrow> nat \<times> embed" where
  "EventBus_new i s =
     (fresh s,
      s\<lparr>buses := (buses s)(fresh s := emptyBus\<lparr>boundIframe := i\<rparr>),
        fresh := Suc (fresh s)\<rparr>)"

text \<open>
  Modelled from the spec: \<open>publish\<close> sends exactly one message to the bound content
  window; after destruction no further messages are sent outward.
\<close>

definition EventBus_publish :: "nat \<Rightarrow> string \<Rightarrow> jsval \<Rightarrow> embed \<Rightarrow> embed" where
  "EventBus_publish b ev d s =
     (if isDestroyed (buses s b) then s
      else updBus b (\<lambda>B. B\<lparr>sent := sent B @ [Publish ev d]\<rparr>) s)"

text \<open>
  Modelled from the spec: \<open>publishError(code)\<close> publishes a synthetic error event with a
  fixed diagnostic code.
\<close>

definition EventBus_publishError :: "nat \<Rightarrow> string \<Rightarrow> embed \<Rightarrow> embed" where
  "EventBus_publishError b code s =
     (if isDestroyed (buses s b) then s
      else updBus b (\<lambda>B. B\<lparr>sent := sent B @ [PublishError code]\<rparr>) s)"

text \<open>
  Modelled from the spec: \<open>on(eventName, listener)\<close> of \<open>EventBus\<close> registers a listener
  for an event name. Several listeners per name are permitted.
\<close>

definition EventBus_on :: "nat \<Rightarrow> string \<Rightarrow> listener \<Rightarrow> embed \<Rightarrow> embed" where
  "EventBus_on b ev l s = updBus b (\<lambda>B. B\<lparr>handlers := handlers B @ [(ev, l)]\<rparr>) s"

text \<open>
  Modelled from the spec: \<open>off(eventName, listener)\<close> of \<open>EventBus\<close>. Removal finds the
  same listener reference that was registered (reference equality) and is a no-op if
  it is absent.
\<close>

definition EventBus_off :: "nat \<Rightarrow> string \<Rightarrow> listener \<Rightarrow> embed \<Rightarrow> embed" where
  "EventBus_off b ev l s = updBus b (\<lambda>B. B\<lparr>handlers := remove1 (ev, l) (handlers B)\<rparr>) s"

text \<open>
  Modelled from the spec: \<open>emitLocalError(message, cause)\<close> triggers purely local error
  observers and sends nothing over the channel. The emission is recorded; the observers
  are not part of the model.
\<close>

definition EventBus_emitLocalError :: "nat \<Rightarrow> string \<Rightarrow> failure \<Rightarrow> embed \<Rightarrow> embed" where
  "EventBus_emitLocalError b msg cause s =
     updBus b (\<lambda>B. B\<lparr>localErrors := localErrors B @ [(msg, cause)]\<rparr>) s"

text \<open>
  Modelled from the spec: \<open>destroy\<close> disables further inbound dispatch and outbound
  publishing, and is idempotent.
\<close>

definition EventBus_destroy :: "nat \<Rightarrow> embed \<Rightarrow> embed" where
  "EventBus_destroy b s = updBus b (\<lambda>B. B\<lparr>isDestroyed := True\<rparr>) s"

text \<open>
  Modelled from the spec: the timeout in milliseconds that \<open>awaitEvent\<close> of \<open>EventBus\<close>
  applies when it is given none. Section 6 of the specification and the doc comment of
  \<open>timeoutSeconds\<close> in the declarations give the handshake a default of 30 seconds, and
  sections 4.2 and 8 let \<open>updateToken\<close>, which passes no timeout, time out.
  \<open>initialize\<close> holds no default of its own: it turns a missing \<open>timeoutSeconds\<close> into
  \<open>undefined\<close>, the value for which a default parameter applies. (Section 4.1 says of
  an omitted timeout that none is applied; the model follows the other places.)
\<close>

definition EventBus_defaultTimeout :: int where
  "EventBus_defaultTimeout = 30000"

text \<open>
  Modelled from the spec: \<open>awaitEvent(successEventName, errorEventName, timeoutMs?)\<close>
  registers a one-shot listener on both names plus a timer. If \<open>timeoutMs\<close> is omitted
  or undefined, the default applies; if it is zero, no timeout is applied. The promise
  it returns is represented by the continuation \<open>k\<close> that the caller attaches to it.
\<close>

definition EventBus_awaitEvent ::
  "nat \<Rightarrow> string \<Rightarrow> string \<Rightarrow> int option \<Rightarrow> continuation \<Rightarrow> embed \<Rightarrow> embed" where
  "EventBus_awaitEvent b ok err timeoutMs k s =
     (let w = fresh s;
          s1 = s\<lparr>fresh := Suc w\<rparr>;
          s2 = EventBus_on b err (AwaitReject w) (EventBus_on b ok (AwaitResolve w) s1);
          t = (case timeoutMs of None \<Rightarrow> EventBus_defaultTimeout | Some t' \<Rightarrow> t');
          (tm, s3) = (if t = 0 then (None, s2)
                      else (let (i, s') = setTimeout (AwaitTimeout w) (nat t) s2
                            in (Some i, s')))
      in s3\<lparr>awaits := awaits s3 @
               [(w, \<lparr>awaitBus = b, successEvent = ok, failEvent = err,
                     awaitTimer = tm, cont = k\<rparr>)]\<rparr>)"

text \<open>
  How many jobs pass a settlement of an \<open>awaitEvent\<close> promise on before a callback of
  the code runs. In \<open>initialize\<close> the promise is an element of \<open>Promise.all\<close>, whose
  result goes through \<open>then\<close> and \<open>catch\<close>: the first job settles the promise of
  \<open>Promise.all\<close>, the second runs the \<open>then\<close> callback or passes a rejection on, the
  third runs the \<open>catch\<close> callback. \<open>updateToken\<close> awaits the promise itself and
  resumes with the first job.
\<close>

fun reactionDepth :: "continuation \<Rightarrow> failure + message \<Rightarrow> nat" where
  "reactionDepth (InitAll p tok timeout) (Inr v) = Suc 0"
| "reactionDepth (InitAll p tok timeout) (Inl e) = Suc (Suc 0)"
| "reactionDepth Unobserved r = 0"
| "reactionDepth (UpdateTokenAwait p) r = 0"

text \<open>
  Modelled from the spec: whichever of the success event, the error event and the timer
  fires first cancels the others (the timer is cleared, both listeners are removed), and
  the promise settles once. Its reactions are queued as a job.
\<close>

definition settle :: "nat \<Rightarrow> failure + message \<Rightarrow> embed \<Rightarrow> embed" where
  "settle w r s =
     (case map_of (awaits s) w of
        None \<Rightarrow> s
      | Some a \<Rightarrow>
          (let s1 = EventBus_off (awaitBus a) (successEvent a) (AwaitResolve w) s;
               s2 = EventBus_off (awaitBus a) (failEvent a) (AwaitReject w) s1;
               s3 = clearTimeout (awaitTimer a) s2
           in s3\<lparr>awaits := filter (\<lambda>e. fst e \<noteq> w) (awaits s3),
                 microtasks := microtasks s3 @
                   [(reactionDepth (cont a) r, Settled (cont a) r)]\<rparr>))"

subsection \<open>Listeners\<close>

text \<open>
  A callback of the host page runs: the call is recorded together with the value the
  \<open>playerStatus\<close> getter has at that moment. The callbacks are observers; they do not
  call back into the embed.
\<close>

definition callClient :: "nat \<Rightarrow> message \<Rightarrow> embed \<Rightarrow> embed" where
  "callClient c m s =
     s\<lparr>calls := calls s @ [\<lparr>callee = c, payload = m, observedStatus = playerStatus s\<rparr>]\<rparr>"

text \<open>
  Calling a listener with a payload. The first four equations are the bodies of the
  closures of \<open>initializeEmbed\<close>:
  \<^verbatim>\<open>(e) => { this._info = e; this._playerStatus = PlayerStatus.Paused; }\<close>,
  \<^verbatim>\<open>({status, ...info}) => { this._info = info; }\<close>,
  \<^verbatim>\<open>e => this._playerStatus = e.status\<close> and
  \<^verbatim>\<open>subtitles => { this._currentSubtitles = subtitles; }\<close>.
  The fifth is the closure of \<open>on\<close>: \<^verbatim>\<open>(e) => setTimeout(() => listener(e))\<close>.
  The one-shot listeners of an \<open>awaitEvent\<close> settle its promise, with the payload or with
  the error event. A handler that is given a payload of another event of the catalogue
  does nothing.
\<close>

fun invoke :: "listener \<Rightarrow> message \<Rightarrow> embed \<Rightarrow> embed" where
  "invoke VideoLoadedHandler (VideoLoaded e) s = s\<lparr>info := Some e, playerStatus := Paused\<rparr>"
| "invoke WebcastLoadedHandler (WebcastLoaded e) s =
     s\<lparr>info := Some (filter (\<lambda>kv. fst kv \<noteq> ''status'') e)\<rparr>"
| "invoke PlayerStatusHandler (PlayerStatusChanged st) s = s\<lparr>playerStatus := st\<rparr>"
| "invoke SubtitlesHandler (SubtitlesChanged sub) s = s\<lparr>currentSubtitles := sub\<rparr>"
| "invoke (Deferred c) m s = snd (setTimeout (CallClient c m) 0 s)"
| "invoke (Client c) m s = callClient c m s"
| "invoke (AwaitResolve w) m s = settle w (Inr m) s"
| "invoke (AwaitReject w) m s = settle w (Inl (Remote m)) s"
| "invoke VideoLoadedHandler m s = s"
| "invoke WebcastLoadedHandler m s = s"
| "invoke PlayerStatusHandler m s = s"
| "invoke SubtitlesHandler m s = s"

text \<open>
  Modelled from the spec: the listeners that \<open>EventBus\<close> holds for an event name, in the
  order of registration.
\<close>

definition listenersFor :: "string \<Rightarrow> EventBus \<Rightarrow> listener list" where
  "listenersFor ev B = map snd (filter (\<lambda>h. fst h = ev) (handlers B))"

text \<open>
  Modelled from the spec: the inbound side of \<open>EventBus\<close>. A message that arrives from
  the bound content window is dispatched to the listeners registered under its name;
  after destruction nothing is dispatched.
\<close>

definition EventBus_dispatch :: "nat \<Rightarrow> message \<Rightarrow> embed \<Rightarrow> embed" where
  "EventBus_dispatch b m s =
     (if isDestroyed (buses s b) then s
      else foldl (\<lambda>s' l. invoke l m s') s (listenersFor (eventName m) (buses s b)))"

subsection \<open>The methods of \<open>VbrickEmbed\<close>\<close>

text \<open>
  \<open>render\<close>: a new iframe element with its attributes, appended to the container.
  \<open>this.config.width || '100%'\<close> takes the default for a missing and for an empty string.
\<close>

definition orDefault :: "string option \<Rightarrow> string \<Rightarrow> string" where
  "orDefault v d = (case v of None \<Rightarrow> d | Some x \<Rightarrow> if x = [] then d else x)"

definition render :: "embed \<Rightarrow> nat \<times> embed" where
  "render s =
     (let el = \<lparr>elementId = fresh s, frameborder = ''0'', allowFullScreen = [],
                allow = ''autoplay'',
                elemWidth = orDefault (width (config s)) ''100%'',
                elemHeight = orDefault (height (config s)) ''100%'',
                src = iframeUrl s,
                elemClassName = (case className (config s) of
                                   None \<Rightarrow> None
                                 | Some c \<Rightarrow> if c = [] then None else Some c)\<rparr>
      in (fresh s, s\<lparr>container := container s @ [el], fresh := Suc (fresh s)\<rparr>))"

text \<open>\<open>iframe.remove()\<close>: the element leaves its parent; no effect if it has none.\<close>

definition removeElement :: "nat \<Rightarrow> embed \<Rightarrow> embed" where
  "removeElement i s = s\<lparr>container := filter (\<lambda>el. elementId el \<noteq> i) (container s)\<rparr>"

text \<open>
  \<open>initializeToken\<close>: the outcome of the promise it returns, which is settled when it is
  created. \<open>Inl\<close> is a rejection.
\<close>

definition initializeToken :: "embed \<Rightarrow> failure + jsval" where
  "initializeToken s =
     (case token (config s) of
        None \<Rightarrow> Inr JUndefined
      | Some t \<Rightarrow>
          if tokenType t \<noteq> ACCESS_TOKEN then Inl (Reason ''Unsupported token type'')
          else Inr (JObj [(''accessToken'', JStr (tokenValue t))]))"

text \<open>
  \<open>initializeEmbed\<close>, with the bus that \<open>this.eventBus\<close> holds when \<open>initialize\<close> calls it.
\<close>

definition initializeEmbed :: "nat \<Rightarrow> embed \<Rightarrow> embed" where
  "initializeEmbed b s =
     EventBus_on b ''subtitlesChanged'' SubtitlesHandler
       (EventBus_on b ''playerStatusChanged'' PlayerStatusHandler
         (EventBus_on b ''webcastLoaded'' WebcastLoadedHandler
           (EventBus_on b ''videoLoaded'' VideoLoadedHandler s)))"

text \<open>\<open>const timeout = (this.config.timeoutSeconds * 1000) || undefined\<close>\<close>

definition timeoutOf :: "VbrickEmbedConfig \<Rightarrow> int option" where
  "timeoutOf cfg =
     (case timeoutSeconds cfg of
        None \<Rightarrow> None
      | Some t \<Rightarrow> if t * 1000 = 0 then None else Some (t * 1000))"

definition settlePromise :: "nat \<Rightarrow> promise_state \<Rightarrow> embed \<Rightarrow> embed" where
  "settlePromise p r s = s\<lparr>promises := (promises s)(p := r)\<rparr>"

text \<open>
  The \<open>catch\<close> callback of \<open>initialize\<close>, for the promise \<open>p\<close> the chain ends in. The calls
  of the logger are left out. \<open>this.eventBus\<close> is read when the callback runs.
\<close>

definition initialize_catch :: "nat \<Rightarrow> failure \<Rightarrow> embed \<Rightarrow> embed" where
  "initialize_catch p err s =
     (let s1 = s\<lparr>playerStatus := Error\<rparr>
      in case eventBus s1 of
           None \<Rightarrow> settlePromise p (Rejected (TypeError ''eventBus'')) s1
         | Some b \<Rightarrow>
             settlePromise p (Rejected err)
               (EventBus_emitLocalError b ''Error loading embed content'' err
                 (EventBus_publishError b ''initializationFailed'' s1)))"

text \<open>
  The \<open>then\<close> callback of \<open>initialize\<close>. It publishes \<open>authenticated\<close> with the token and
  starts a second \<open>awaitEvent\<close> whose promise it drops. An exception in it reaches the
  \<open>catch\<close> callback, which is attached after it.
\<close>

definition initialize_then :: "nat \<Rightarrow> jsval \<Rightarrow> int option \<Rightarrow> embed \<Rightarrow> embed" where
  "initialize_then p tok timeout s =
     (case eventBus s of
        None \<Rightarrow> initialize_catch p (TypeError ''eventBus'') s
      | Some b \<Rightarrow>
          settlePromise p Fulfilled
            (EventBus_awaitEvent b ''authChanged'' ''error'' timeout Unobserved
              (EventBus_publish b ''authenticated'' (JObj [(''token'', tok)]) s)))"

text \<open>
  \<open>initialize\<close>. The result is the promise (its number) and the new state. The reactions
  to the token promise and to the \<open>awaitEvent\<close> promise run later, as jobs of the
  microtask queue. A rejected token promise reaches the \<open>catch\<close> callback with the third
  job: the first rejects the promise of \<open>Promise.all\<close>, the second that of \<open>then\<close>.
\<close>

definition initialize :: "embed \<Rightarrow> nat \<times> embed" where
  "initialize s =
     (case init s of
        Some p \<Rightarrow> (p, s)
      | None \<Rightarrow>
          (let (i, s1) = render s;
               s2 = s1\<lparr>iframe := Some i\<rparr>;
               (b, s3) = EventBus_new i s2;
               s4 = s3\<lparr>eventBus := Some b\<rparr>;
               s5 = initializeEmbed b s4;
               timeout = timeoutOf (config s5);
               tok = initializeToken s5;
               p = fresh s5;
               s6 = s5\<lparr>fresh := Suc p\<rparr>;
               s7 = EventBus_awaitEvent b ''load'' ''error'' timeout (InitAll p tok timeout) s6;
               s8 = (case tok of
                       Inl e \<Rightarrow> s7\<lparr>microtasks := microtasks s7 @
                                   [(Suc (Suc 0), InitTokenRejected p e)]\<rparr>
                     | Inr t \<Rightarrow> s7)
           in (p, s8\<lparr>init := Some p\<rparr>)))"

text \<open>
  \<open>on\<close> and \<open>off\<close>. A method call on \<open>this.eventBus\<close> while it is \<open>undefined\<close> throws.
  \<open>on\<close> registers a new closure around the listener; \<open>off\<close> passes the listener itself.
\<close>

definition on :: "string \<Rightarrow> nat \<Rightarrow> embed \<Rightarrow> failure option \<times> embed" where
  "on event l s =
     (case eventBus s of
        None \<Rightarrow> (Some (TypeError ''eventBus''), s)
      | Some b \<Rightarrow> (None, EventBus_on b event (Deferred l) s))"

definition off :: "string \<Rightarrow> nat \<Rightarrow> embed \<Rightarrow> failure option \<times> embed" where
  "off event l s =
     (case eventBus s of
        None \<Rightarrow> (Some (TypeError ''eventBus''), s)
      | Some b \<Rightarrow> (None, EventBus_off b event (Client l) s))"

text \<open>
  \<open>destroy\<close>. \<open>this.iframe.remove()\<close> throws while \<open>iframe\<close> is \<open>undefined\<close>, before anything
  is changed. \<open>unsubscribes\<close> is never assigned in this class, so the last line does
  nothing.
\<close>

definition destroy :: "embed \<Rightarrow> failure option \<times> embed" where
  "destroy s =
     (case iframe s of
        None \<Rightarrow> (Some (TypeError ''iframe''), s)
      | Some i \<Rightarrow>
          (let s1 = removeElement i s
           in case eventBus s1 of
                None \<Rightarrow> (Some (TypeError ''eventBus''), s1)
              | Some b \<Rightarrow> (None, (EventBus_destroy b s1)\<lparr>init := None\<rparr>)))"

text \<open>
  \<open>updateToken\<close> is an \<open>async\<close> function: it runs up to its first \<open>await\<close> inside the call,
  which replaces the token and calls \<open>initializeToken\<close>, and returns a pending promise.
\<close>

definition updateToken :: "VbrickSDKToken \<Rightarrow> embed \<Rightarrow> nat \<times> embed" where
  "updateToken newToken s =
     (let s1 = s\<lparr>config := (config s)\<lparr>token := Some newToken\<rparr>\<rparr>;
          tok = initializeToken s1;
          p = fresh s1;
          s2 = s1\<lparr>fresh := Suc p\<rparr>
      in (p, s2\<lparr>microtasks := microtasks s2 @ [(0, UpdateTokenResume p tok)]\<rparr>))"

text \<open>
  The \<open>catch\<close> block of \<open>updateToken\<close>: it logs and throws the error again, so the promise
  of the call is rejected with it. Nothing else is written.
\<close>

definition updateToken_catch :: "nat \<Rightarrow> failure \<Rightarrow> embed \<Rightarrow> embed" where
  "updateToken_catch p error s = settlePromise p (Rejected error) s"

text \<open>
  \<open>updateToken\<close> after its first \<open>await\<close>: publish \<open>authChanged\<close>, then wait for the
  confirmation with \<open>awaitEvent('authChanged', 'error')\<close>, which is given no timeout
  of its own.
\<close>

definition updateToken_resume :: "nat \<Rightarrow> failure + jsval \<Rightarrow> embed \<Rightarrow> embed" where
  "updateToken_resume p tok s =
     (case tok of
        Inl e \<Rightarrow> updateToken_catch p e s
      | Inr t \<Rightarrow>
          (case eventBus s of
             None \<Rightarrow> updateToken_catch p (TypeError ''eventBus'') s
           | Some b \<Rightarrow>
               EventBus_awaitEvent b ''authChanged'' ''error'' None (UpdateTokenAwait p)
                 (EventBus_publish b ''authChanged'' (JObj [(''token'', t)]) s)))"

text \<open>\<open>play\<close>, \<open>pause\<close>, \<open>setVolume\<close>, \<open>setSubtitles\<close>: one publish each.\<close>

definition publishCommand :: "string \<Rightarrow> jsval \<Rightarrow> embed \<Rightarrow> failure option \<times> embed" where
  "publishCommand ev d s =
     (case eventBus s of
        None \<Rightarrow> (Some (TypeError ''eventBus''), s)
      | Some b \<Rightarrow> (None, EventBus_publish b ev d s))"

definition play :: "embed \<Rightarrow> failure option \<times> embed" where
  "play s = publishCommand ''playVideo'' JUndefined s"

definition pause :: "embed \<Rightarrow> failure option \<times> embed" where
  "pause s = publishCommand ''pauseVideo'' JUndefined s"

definition setVolume :: "rat \<Rightarrow> embed \<Rightarrow> failure option \<times> embed" where
  "setVolume v s = publishCommand ''setVolume'' (JObj [(''volume'', JNum v)]) s"

definition subtitlesValue :: "ISubtitles \<Rightarrow> jsval" where
  "subtitlesValue sub =
     JObj ((case language sub of None \<Rightarrow> [] | Some l \<Rightarrow> [(''language'', JStr l)]) @
           [(''enabled'', JBool (enabled sub))])"

definition setSubtitles :: "ISubtitles \<Rightarrow> embed \<Rightarrow> failure option \<times> embed" where
  "setSubtitles sub s = publishCommand ''setSubtitles'' (subtitlesValue sub) s"

subsection \<open>The event loop\<close>

text \<open>The reactions of the code to a settled \<open>awaitEvent\<close> promise.\<close>

fun react :: "continuation \<Rightarrow> failure + message \<Rightarrow> embed \<Rightarrow> embed" where
  "react (InitAll p (Inr tok) timeout) (Inr v) s = initialize_then p tok timeout s"
| "react (InitAll p (Inr tok) timeout) (Inl e) s = initialize_catch p e s"
| "react (InitAll p (Inl e0) timeout) r s = s"
| "react Unobserved r s = s"
| "react (UpdateTokenAwait p) (Inr v) s = settlePromise p Fulfilled s"
| "react (UpdateTokenAwait p) (Inl e) s = updateToken_catch p e s"

fun run_microtask :: "microtask \<Rightarrow> embed \<Rightarrow> embed" where
  "run_microtask (Settled k r) s = react k r s"
| "run_microtask (InitTokenRejected p e) s = initialize_catch p e s"
| "run_microtask (UpdateTokenResume p tok) s = updateToken_resume p tok s"

text \<open>
  One job of the queue: a callback that is due runs; otherwise the settlement moves one
  promise down the chain, which queues the next job at the end.
\<close>

fun runJob :: "nat \<times> microtask \<Rightarrow> embed \<Rightarrow> embed" where
  "runJob (0, t) s = run_microtask t s"
| "runJob (Suc n, t) s = s\<lparr>microtasks := microtasks s @ [(n, t)]\<rparr>"

text \<open>
  The microtask checkpoint: jobs are taken from the head of the queue until it is empty.
  The loop is given the number of jobs that the queue stands for; no callback of this
  code queues a job, so that many steps empty the queue (\<open>microtasks_drain\<close> below).
\<close>

fun drainLoop :: "nat \<Rightarrow> embed \<Rightarrow> embed" where
  "drainLoop 0 s = s"
| "drainLoop (Suc k) s =
     (case microtasks s of
        [] \<Rightarrow> s
      | j # q \<Rightarrow> drainLoop k (runJob j (s\<lparr>microtasks := q\<rparr>)))"

definition jobsLeft :: "(nat \<times> microtask) list \<Rightarrow> nat" where
  "jobsLeft q = sum_list (map (\<lambda>j. Suc (fst j)) q)"

definition drain :: "embed \<Rightarrow> embed" where
  "drain s = drainLoop (jobsLeft (microtasks s)) s"

fun run_timer :: "timer_task \<Rightarrow> embed \<Rightarrow> embed" where
  "run_timer (AwaitTimeout w) s = settle w (Inl TimedOut) s"
| "run_timer (CallClient c m) s = callClient c m s"

text \<open>A timer that is still set fires: its callback is one task of the event loop.\<close>

definition fire :: "timer \<Rightarrow> embed \<Rightarrow> embed" where
  "fire t s =
     (if t \<in> set (timers s)
      then drain (run_timer (task t)
                   (s\<lparr>timers := remove1 t (timers s), now := max (now s) (due t)\<rparr>))
      else s)"

text \<open>
  \<open>n\<close> milliseconds pass: the timers that fall due fire in the order of their due times
  (timers with the same due time in the order they were set).
\<close>

definition elapse :: "nat \<Rightarrow> embed \<Rightarrow> embed" where
  "elapse n s =
     (let target = now s + n;
          dueTimers = sort_key due (filter (\<lambda>t. due t \<le> target) (timers s))
      in (foldl (\<lambda>s' t. fire t s') s dueTimers)\<lparr>now := target\<rparr>)"

text \<open>
  A message from the content window of the current iframe reaches the bus of the embed
  (the buses of removed iframes are destroyed); then the microtasks run.
\<close>

definition deliver :: "message \<Rightarrow> embed \<Rightarrow> embed" where
  "deliver m s =
     (case eventBus s of
        None \<Rightarrow> s
      | Some b \<Rightarrow> drain (EventBus_dispatch b m s))"

text \<open>
  The tasks of the event loop: a script of the host page that calls methods of the embed
  (a call that throws changes nothing and the script goes on), a message from the
  iframe, and the passing of time.
\<close>

datatype call =
    Initialize
  | On string nat
  | Off string nat
  | Destroy
  | UpdateToken VbrickSDKToken
  | Play
  | Pause
  | SetVolume rat
  | SetSubtitles ISubtitles

fun perform :: "call \<Rightarrow> embed \<Rightarrow> embed" where
  "perform Initialize s = snd (initialize s)"
| "perform (On ev l) s = snd (on ev l s)"
| "perform (Off ev l) s = snd (off ev l s)"
| "perform Destroy s = snd (destroy s)"
| "perform (UpdateToken t) s = snd (updateToken t s)"
| "perform Play s = snd (play s)"
| "perform Pause s = snd (pause s)"
| "perform (SetVolume v) s = snd (setVolume v s)"
| "perform (SetSubtitles sub) s = snd (setSubtitles sub s)"

datatype task = Script "call list" | Message message | Elapse nat

fun step :: "task \<Rightarrow> embed \<Rightarrow> embed" where
  "step (Script cs) s = drain (foldl (\<lambda>s' c. perform c s') s cs)"
| "step (Message m) s = deliver m s"
| "step (Elapse n) s = elapse n s"

definition run :: "task list \<Rightarrow> embed \<Rightarrow> embed" where
  "run ts s = foldl (\<lambda>s' t. step t s') s ts"

subsection \<open>Auxiliary notions for the properties\<close>

text \<open>
  The fields of the object that no task of the event loop writes by itself: only
  \<open>initialize\<close>, \<open>destroy\<close> and \<open>updateToken\<close> change some of them.
\<close>

definition core ::
  "embed \<Rightarrow> rat option \<times> nat option \<times> string \<times> nat option \<times> nat option \<times>
     VbrickEmbedConfig \<times> HTMLIFrameElement list" where
  "core s = (volume s, iframe s, iframeUrl s, eventBus s, init s, config s, container s)"

text \<open>
  Which entries the code ever registers on a bus, and which it ever removes. \<open>evolves\<close>
  relates two states when every new entry is of the first kind and every entry that
  went away is of the second.
\<close>

fun okEntry :: "string \<times> listener \<Rightarrow> bool" where
  "okEntry (ev, Client c) = False"
| "okEntry (ev, AwaitResolve w) = (ev = ''load'' \<or> ev = ''authChanged'')"
| "okEntry (ev, AwaitReject w) = (ev = ''error'')"
| "okEntry (ev, l) = True"

fun removable :: "string \<times> listener \<Rightarrow> bool" where
  "removable (ev, Client c) = True"
| "removable (ev, AwaitResolve w) = True"
| "removable (ev, AwaitReject w) = True"
| "removable (ev, l) = False"

definition evolves :: "embed \<Rightarrow> embed \<Rightarrow> bool" where
  "evolves s s' =
     (\<forall>b e. (e \<in> set (handlers (buses s' b)) \<longrightarrow> e \<in> set (handlers (buses s b)) \<or> okEntry e) \<and>
            (e \<in> set (handlers (buses s b)) \<longrightarrow> e \<in> set (handlers (buses s' b)) \<or> removable e))"

text \<open>
  \<open>blank\<close>: nothing of \<open>initialize\<close> has happened to the object. \<open>attached\<close>: the
  object has an iframe and a bus.
\<close>

definition blank :: "embed \<Rightarrow> bool" where
  "blank s = (iframe s = None \<and> eventBus s = None \<and> init s = None)"

definition attached :: "embed \<Rightarrow> bool" where
  "attached s = (iframe s \<noteq> None \<and> eventBus s \<noteq> None)"

text \<open>The method calls that a task makes.\<close>

fun callsOf :: "task \<Rightarrow> call list" where
  "callsOf (Script cs) = cs"
| "callsOf (Message m) = []"
| "callsOf (Elapse n) = []"

text \<open>
  A configuration with no option set, a token of the supported type and a token of an
  unsupported type.
\<close>

definition sampleConfig :: VbrickEmbedConfig where
  "sampleConfig =
     \<lparr>token = None, timeoutSeconds = None, width = None, height = None, className = None\<rparr>"

definition accessToken :: VbrickSDKToken where
  "accessToken = \<lparr>tokenType = ACCESS_TOKEN, tokenValue = ''abc'', issuer = ''vbrick''\<rparr>"

definition jwtToken :: VbrickSDKToken where
  "jwtToken = \<lparr>tokenType = JWT, tokenValue = ''abc'', issuer = ''vbrick''\<rparr>"

text \<open>
  The entries that \<open>initializeEmbed\<close> registers, and the state of the buses that the
  code maintains: every entry is one the code registers, and the bus of the embed
  holds the four internal ones.
\<close>

definition internalEntries :: "(string \<times> listener) list" where
  "internalEntries =
     [(''videoLoaded'', VideoLoadedHandler), (''webcastLoaded'', WebcastLoadedHandler),
      (''playerStatusChanged'', PlayerStatusHandler), (''subtitlesChanged'', SubtitlesHandler)]"

definition plumbed :: "embed \<Rightarrow> bool" where
  "plumbed s =
     ((\<forall>b e. e \<in> set (handlers (buses s b)) \<longrightarrow> okEntry e) \<and>
      (\<forall>b e. eventBus s = Some b \<longrightarrow> e \<in> set internalEntries \<longrightarrow>
             e \<in> set (handlers (buses s b))))"

text \<open>
  The events that the embed consumes itself, and what its handler for a payload leaves
  in the fields that the getters read.
\<close>

fun consumed :: "message \<Rightarrow> bool" where
  "consumed (VideoLoaded e) = True"
| "consumed (WebcastLoaded e) = True"
| "consumed (PlayerStatusChanged st) = True"
| "consumed (SubtitlesChanged sub) = True"
| "consumed m = False"

fun applied :: "message \<Rightarrow> embed \<Rightarrow> bool" where
  "applied (VideoLoaded e) s = (info s = Some e \<and> playerStatus s = Paused)"
| "applied (WebcastLoaded e) s = (info s = Some (filter (\<lambda>kv. fst kv \<noteq> ''status'') e))"
| "applied (PlayerStatusChanged st) s = (playerStatus s = st)"
| "applied (SubtitlesChanged sub) s = (currentSubtitles s = sub)"
| "applied m s = True"

text \<open>The calls of \<open>updateToken\<close>.\<close>

fun isUpdateToken :: "call \<Rightarrow> bool" where
  "isUpdateToken (UpdateToken t) = True"
| "isUpdateToken c = False"

text \<open>
  A failed handshake of the first \<open>initialize\<close> of a new embed, whose promise is number 2
  and whose bus is number 1: the promise is rejected with the error, the status is
  \<open>Error\<close>, the synthetic error event was published and the local error was emitted.
\<close>

definition handshakeFailed :: "embed \<Rightarrow> failure \<Rightarrow> bool" where
  "handshakeFailed s err =
     (init s = Some 2 \<and> eventBus s = Some 1 \<and>
      promises s 2 = Rejected err \<and> playerStatus s = Error \<and>
      sent (buses s 1) = [PublishError ''initializationFailed''] \<and>
      localErrors (buses s 1) = [(''Error loading embed content'', err)])"

text \<open>A task without its calls of \<open>initialize\<close>.\<close>

fun withoutInitialize :: "task \<Rightarrow> task" where
  "withoutInitialize (Script cs) = Script (filter (\<lambda>c. c \<noteq> Initialize) cs)"
| "withoutInitialize (Message m) = Message m"
| "withoutInitialize (Elapse n) = Elapse n"

text \<open>
  The delay of the timer of the first wait of \<open>initialize\<close>, in milliseconds: what
  \<open>awaitEvent\<close> makes of the \<open>timeout\<close> that \<open>initialize\<close> hands to it.
\<close>

definition handshakeTimeout :: "VbrickEmbedConfig \<Rightarrow> int" where
  "handshakeTimeout cfg =
     (case timeoutOf cfg of None \<Rightarrow> EventBus_defaultTimeout | Some t \<Rightarrow> t)"

section \<open>Basic facts about the model\<close>

lemmas bus_defs = updBus_def EventBus_publish_def EventBus_publishError_def
  EventBus_on_def EventBus_off_def EventBus_emitLocalError_def EventBus_destroy_def

lemma foldl_pres:
  assumes "\<And>x s. P (g x s) = P s"
  shows "P (foldl (\<lambda>s x. g x s) s xs) = P s"
  using assms by (induction xs arbitrary: s) simp_all

lemma core_awaitEvent: "core (EventBus_awaitEvent b ok err tm k s) = core s"
  by (simp add: EventBus_awaitEvent_def Let_def setTimeout_def bus_defs core_def split: option.split prod.split)

lemma core_settle: "core (settle w r s) = core s"
  by (simp add: settle_def Let_def clearTimeout_def bus_defs core_def split: option.split)

lemma core_invoke: "core (invoke l m s) = core s"
  by (cases "(l, m, s)" rule: invoke.cases) (simp_all add: core_settle, simp_all add: core_def setTimeout_def callClient_def)

lemma core_dispatch: "core (EventBus_dispatch b m s) = core s"
  by (simp add: EventBus_dispatch_def foldl_pres [where P = core] core_invoke)

lemma core_initialize_catch: "core (initialize_catch p e s) = core s"
  by (simp add: initialize_catch_def Let_def settlePromise_def bus_defs core_def split: option.split)

lemma core_initialize_then: "core (initialize_then p tok tm s) = core s"
  by (simp add: initialize_then_def core_initialize_catch split: option.split)
     (simp add: settlePromise_def core_def core_awaitEvent [unfolded core_def] bus_defs)

lemma core_updateToken_resume: "core (updateToken_resume p tok s) = core s"
  by (simp add: updateToken_resume_def split: option.split sum.split)
     (simp add: updateToken_catch_def settlePromise_def core_def
        core_awaitEvent [unfolded core_def] bus_defs)

lemma core_react: "core (react k r s) = core s"
  by (cases "(k, r, s)" rule: react.cases)
     (simp_all add: core_initialize_then core_initialize_catch,
      simp_all add: updateToken_catch_def settlePromise_def core_def)

lemma core_run_microtask: "core (run_microtask t s) = core s"
  by (cases t) (simp_all add: core_react core_initialize_catch core_updateToken_resume)

lemma drainLoop_pres:
  assumes "\<And>t s. P (run_microtask t s) = P s" and "\<And>q s. P (s\<lparr>microtasks := q\<rparr>) = P s"
  shows "P (drainLoop k s) = P s"
proof (induction k arbitrary: s)
  case 0
  show ?case by simp
next
  case (Suc k)
  show ?case
  proof (cases "microtasks s")
    case Nil
    then show ?thesis by simp
  next
    case (Cons j q)
    obtain n t where j: "j = (n, t)" by (cases j)
    have "P (runJob j (s\<lparr>microtasks := q\<rparr>)) = P s"
      unfolding j using assms by (cases n) simp_all
    with Cons Suc show ?thesis by simp
  qed
qed

lemma core_drain: "core (drain s) = core s"
  unfolding drain_def
proof (rule drainLoop_pres)
  show "core (run_microtask t s') = core s'" for t s' by (rule core_run_microtask)
  show "core (s'\<lparr>microtasks := q\<rparr>) = core s'" for q s' by (simp add: core_def)
qed

lemma core_run_timer: "core (run_timer k s) = core s"
  by (cases k) (simp_all add: core_settle, simp add: callClient_def core_def)

lemma core_fire: "core (fire t s) = core s"
proof (cases "t \<in> set (timers s)")
  case True
  then have "core (fire t s) = core (s\<lparr>timers := remove1 t (timers s), now := max (now s) (due t)\<rparr>)"
    by (simp add: fire_def core_drain core_run_timer)
  then show ?thesis by (simp add: core_def)
next
  case False
  then show ?thesis by (simp add: fire_def)
qed

lemma core_elapse: "core (elapse n s) = core s"
proof -
  have "core (foldl (\<lambda>s' t. fire t s') s xs) = core s" for xs
    by (rule foldl_pres) (rule core_fire)
  then show ?thesis by (simp add: elapse_def Let_def core_def)
qed

lemma core_deliver: "core (deliver m s) = core s"
  by (simp add: deliver_def core_drain core_dispatch split: option.split)


lemmas awaitEvent_fields = core_awaitEvent [unfolded core_def prod.inject]
lemmas drain_fields = core_drain [unfolded core_def prod.inject]
lemmas deliver_fields = core_deliver [unfolded core_def prod.inject]
lemmas elapse_fields = core_elapse [unfolded core_def prod.inject]

lemma volume_initialize: "volume (snd (initialize s)) = volume s"
  by (cases "init s")
     (simp_all add: initialize_def Let_def render_def EventBus_new_def initializeEmbed_def
        awaitEvent_fields bus_defs split: prod.split sum.split)

lemma config_initialize: "config (snd (initialize s)) = config s"
  by (cases "init s")
     (simp_all add: initialize_def Let_def render_def EventBus_new_def initializeEmbed_def
        awaitEvent_fields bus_defs split: prod.split sum.split)

lemma core_on: "core (snd (on ev l s)) = core s"
  by (simp add: on_def core_def bus_defs split: option.split)

lemma core_off: "core (snd (off ev l s)) = core s"
  by (simp add: off_def core_def bus_defs split: option.split)

lemma core_publishCommand: "core (snd (publishCommand ev d s)) = core s"
  by (simp add: publishCommand_def core_def bus_defs split: option.split)

lemma volume_perform: "volume (perform c s) = volume s"
  by (cases c)
     (simp_all add: volume_initialize core_on [unfolded core_def prod.inject]
        core_off [unfolded core_def prod.inject] play_def pause_def setVolume_def setSubtitles_def
        core_publishCommand [unfolded core_def prod.inject],
      simp_all add: destroy_def updateToken_def Let_def removeElement_def bus_defs split: option.split)

lemma volume_step: "volume (step t s) = volume s"
proof (cases t)
  case (Script cs)
  have "volume (foldl (\<lambda>s' c. perform c s') s cs) = volume s"
    by (rule foldl_pres) (rule volume_perform)
  with Script show ?thesis by (simp add: drain_fields)
qed (simp_all add: deliver_fields elapse_fields)

lemma volume_run: "volume (run ts s) = volume s"
  unfolding run_def by (rule foldl_pres) (rule volume_step)


lemma evolves_refl: "evolves s s"
  by (simp add: evolves_def)

lemma evolves_trans: "evolves s s' \<Longrightarrow> evolves s' s'' \<Longrightarrow> evolves s s''"
  unfolding evolves_def by blast

lemma evolves_same: "buses s' = buses s \<Longrightarrow> evolves s s'"
  by (simp add: evolves_def)

lemma evolves_from: "evolves s0 s' \<Longrightarrow> buses s0 = buses s \<Longrightarrow> evolves s s'"
  by (simp add: evolves_def)

lemma evolves_cong: "evolves s s' \<Longrightarrow> buses s'' = buses s' \<Longrightarrow> evolves s s''"
  by (simp add: evolves_def)

lemma foldl_evolves:
  assumes "\<And>x s. evolves s (g x s)"
  shows "evolves s (foldl (\<lambda>s x. g x s) s xs)"
proof (induction xs arbitrary: s)
  case Nil
  show ?case by (simp add: evolves_refl)
next
  case (Cons x xs)
  show ?case using assms [of s x] Cons [of "g x s"] by (auto intro: evolves_trans)
qed

lemma evolves_on: "okEntry (ev, l) \<Longrightarrow> evolves s (EventBus_on b ev l s)"
  by (auto simp: evolves_def bus_defs)

lemma remove1_removable:
  assumes "removable x"
  shows "e \<in> set (remove1 x xs) \<longrightarrow> e \<in> set xs"
    and "e \<in> set xs \<longrightarrow> e \<in> set (remove1 x xs) \<or> removable e"
proof -
  show "e \<in> set (remove1 x xs) \<longrightarrow> e \<in> set xs"
    using set_remove1_subset [of x xs] by blast
  show "e \<in> set xs \<longrightarrow> e \<in> set (remove1 x xs) \<or> removable e"
    using assms by (cases "e = x") (simp_all add: in_set_remove1)
qed

lemma evolves_off:
  assumes "removable (ev, l)"
  shows "evolves s (EventBus_off b ev l s)"
  unfolding evolves_def
proof (intro allI conjI)
  fix b' e
  show "e \<in> set (handlers (buses (EventBus_off b ev l s) b')) \<longrightarrow>
        e \<in> set (handlers (buses s b')) \<or> okEntry e"
    using remove1_removable(1) [OF assms, of e "handlers (buses s b)"]
    by (simp add: bus_defs)
  show "e \<in> set (handlers (buses s b')) \<longrightarrow>
        e \<in> set (handlers (buses (EventBus_off b ev l s) b')) \<or> removable e"
    using remove1_removable(2) [OF assms, of e "handlers (buses s b)"]
    by (simp add: bus_defs)
qed

lemma evolves_publish: "evolves s (EventBus_publish b ev d s)"
  by (simp add: evolves_def bus_defs)

lemma evolves_publishError: "evolves s (EventBus_publishError b c s)"
  by (simp add: evolves_def bus_defs)

lemma evolves_emitLocalError: "evolves s (EventBus_emitLocalError b c e s)"
  by (simp add: evolves_def bus_defs)

lemma evolves_destroy: "evolves s (EventBus_destroy b s)"
  by (simp add: evolves_def bus_defs)


lemma buses_awaitEvent:
  "buses (EventBus_awaitEvent b ok err tm k s) =
   (buses s)(b := (buses s b)\<lparr>handlers := handlers (buses s b) @
        [(ok, AwaitResolve (fresh s)), (err, AwaitReject (fresh s))]\<rparr>)"
  by (simp add: EventBus_awaitEvent_def Let_def setTimeout_def bus_defs
        split: option.split prod.split)

lemma evolves_awaitEvent:
  assumes "ok = ''load'' \<or> ok = ''authChanged''" and "err = ''error''"
  shows "evolves s (EventBus_awaitEvent b ok err tm k s)"
  unfolding evolves_def buses_awaitEvent using assms by auto

lemma evolves_settle: "evolves s (settle w r s)"
proof (cases "map_of (awaits s) w")
  case None
  then show ?thesis by (simp add: settle_def evolves_refl)
next
  case (Some a)
  let ?s1 = "EventBus_off (awaitBus a) (successEvent a) (AwaitResolve w) s"
  let ?s2 = "EventBus_off (awaitBus a) (failEvent a) (AwaitReject w) ?s1"
  have "evolves s ?s2"
    by (rule evolves_trans [OF evolves_off evolves_off]) simp_all
  moreover have "buses (settle w r s) = buses ?s2"
    using Some by (simp add: settle_def Let_def clearTimeout_def)
  ultimately show ?thesis by (rule evolves_cong)
qed

lemma evolves_invoke: "evolves s (invoke l m s)"
  by (cases "(l, m, s)" rule: invoke.cases)
     (simp_all add: evolves_settle evolves_refl,
      simp_all add: evolves_def setTimeout_def callClient_def)

lemma evolves_dispatch: "evolves s (EventBus_dispatch b m s)"
  by (simp add: EventBus_dispatch_def evolves_refl foldl_evolves evolves_invoke)

lemma evolves_initialize_catch: "evolves s (initialize_catch p e s)"
  by (simp add: initialize_catch_def Let_def settlePromise_def evolves_def bus_defs
        split: option.split)

lemma evolves_initialize_then: "evolves s (initialize_then p tok tm s)"
proof (cases "eventBus s")
  case None
  then show ?thesis by (simp add: initialize_then_def evolves_initialize_catch)
next
  case (Some b)
  let ?s1 = "EventBus_publish b ''authenticated'' (JObj [(''token'', tok)]) s"
  let ?s2 = "EventBus_awaitEvent b ''authChanged'' ''error'' tm Unobserved ?s1"
  have "evolves s ?s2"
    by (rule evolves_trans [OF evolves_publish evolves_awaitEvent]) simp_all
  moreover have "buses (initialize_then p tok tm s) = buses ?s2"
    using Some by (simp add: initialize_then_def settlePromise_def)
  ultimately show ?thesis by (rule evolves_cong)
qed

lemma evolves_updateToken_resume: "evolves s (updateToken_resume p tok s)"
proof (cases tok)
  case (Inl e)
  then show ?thesis
    by (simp add: updateToken_resume_def updateToken_catch_def settlePromise_def evolves_def)
next
  case (Inr t)
  show ?thesis
  proof (cases "eventBus s")
    case None
    with Inr show ?thesis
      by (simp add: updateToken_resume_def updateToken_catch_def settlePromise_def evolves_def)
  next
    case (Some b)
    have "evolves s (EventBus_awaitEvent b ''authChanged'' ''error'' None (UpdateTokenAwait p)
            (EventBus_publish b ''authChanged'' (JObj [(''token'', t)]) s))"
      by (rule evolves_trans [OF evolves_publish evolves_awaitEvent]) simp_all
    with Inr Some show ?thesis by (simp add: updateToken_resume_def)
  qed
qed

lemma evolves_react: "evolves s (react k r s)"
  by (cases "(k, r, s)" rule: react.cases)
     (simp_all add: evolves_initialize_then evolves_initialize_catch evolves_refl,
      simp_all add: updateToken_catch_def settlePromise_def evolves_def)

lemma evolves_run_microtask: "evolves s (run_microtask t s)"
  by (cases t)
     (simp_all add: evolves_react evolves_initialize_catch evolves_updateToken_resume)

lemma evolves_runJob: "evolves s (runJob j s)"
proof -
  obtain n t where j: "j = (n, t)" by (cases j)
  show ?thesis
    unfolding j by (cases n) (simp_all add: evolves_run_microtask evolves_same)
qed

lemma evolves_drainLoop: "evolves s (drainLoop k s)"
proof (induction k arbitrary: s)
  case 0
  show ?case by (simp add: evolves_refl)
next
  case (Suc k)
  show ?case
  proof (cases "microtasks s")
    case Nil
    then show ?thesis by (simp add: evolves_refl)
  next
    case (Cons j q)
    let ?s1 = "s\<lparr>microtasks := q\<rparr>"
    have "evolves ?s1 (drainLoop k (runJob j ?s1))"
      by (rule evolves_trans [OF evolves_runJob Suc])
    then have "evolves s (drainLoop k (runJob j ?s1))"
      by (rule evolves_from) simp
    with Cons show ?thesis by simp
  qed
qed

lemma evolves_drain: "evolves s (drain s)"
  unfolding drain_def by (rule evolves_drainLoop)

lemma evolves_run_timer: "evolves s (run_timer k s)"
  by (cases k) (simp_all add: evolves_settle, simp add: callClient_def evolves_def)

lemma evolves_fire: "evolves s (fire t s)"
proof (cases "t \<in> set (timers s)")
  case True
  let ?s0 = "s\<lparr>timers := remove1 t (timers s), now := max (now s) (due t)\<rparr>"
  have "evolves ?s0 (fire t s)"
    using True evolves_trans [OF evolves_run_timer evolves_drain] by (simp add: fire_def)
  then show ?thesis by (rule evolves_from) simp
next
  case False
  then show ?thesis by (simp add: fire_def evolves_refl)
qed

lemma evolves_elapse: "evolves s (elapse n s)"
proof -
  define xs where "xs = sort_key due (filter (\<lambda>t. due t \<le> now s + n) (timers s))"
  have "evolves s (foldl (\<lambda>s' t. fire t s') s xs)"
    by (rule foldl_evolves) (rule evolves_fire)
  moreover have "buses (elapse n s) = buses (foldl (\<lambda>s' t. fire t s') s xs)"
    by (simp add: elapse_def Let_def xs_def)
  ultimately show ?thesis
    by (rule evolves_cong)
qed

lemma evolves_deliver: "evolves s (deliver m s)"
proof (cases "eventBus s")
  case None
  then show ?thesis by (simp add: deliver_def evolves_refl)
next
  case (Some b)
  then show ?thesis
    using evolves_trans [OF evolves_dispatch evolves_drain] by (simp add: deliver_def)
qed

lemmas settle_fields = core_settle [unfolded core_def prod.inject]
lemmas dispatch_fields = core_dispatch [unfolded core_def prod.inject]
lemmas on_fields = core_on [unfolded core_def prod.inject]
lemmas off_fields = core_off [unfolded core_def prod.inject]
lemmas publishCommand_fields = core_publishCommand [unfolded core_def prod.inject]

lemma foldl_pres_set:
  assumes "\<And>x s. x \<in> set xs \<Longrightarrow> P (g x s) = P s"
  shows "P (foldl (\<lambda>s x. g x s) s xs) = P s"
  using assms by (induction xs arbitrary: s) simp_all

lemma initialize_None:
  assumes "init s = None"
  shows "fst (initialize s) = Suc (Suc (fresh s))"
    and "iframe (snd (initialize s)) = Some (fresh s)"
    and "eventBus (snd (initialize s)) = Some (Suc (fresh s))"
    and "init (snd (initialize s)) = Some (Suc (Suc (fresh s)))"
  using assms
  by (simp_all add: initialize_def Let_def render_def EventBus_new_def initializeEmbed_def
        awaitEvent_fields bus_defs split: prod.split sum.split)

lemma initialize_Some: "init s = Some p \<Longrightarrow> initialize s = (p, s)"
  by (simp add: initialize_def)

lemma init_initialize: "init (snd (initialize s)) \<noteq> None"
  by (cases "init s") (simp_all add: initialize_None initialize_Some)

lemma perform_Initialize_again: "init s \<noteq> None \<Longrightarrow> perform Initialize s = s"
  by (auto simp: initialize_Some)

lemma blank_core: "core s' = core s \<Longrightarrow> blank s' = blank s"
  by (simp add: core_def blank_def)

lemma attached_core: "core s' = core s \<Longrightarrow> attached s' = attached s"
  by (simp add: core_def attached_def)

lemma destroy_blank: "blank s \<Longrightarrow> destroy s = (Some (TypeError ''iframe''), s)"
  by (simp add: destroy_def blank_def)

lemma destroy_attached: "attached s \<Longrightarrow> fst (destroy s) = None \<and> attached (snd (destroy s))"
  by (auto simp: destroy_def attached_def Let_def removeElement_def bus_defs)

lemma attached_initialize: "init s = None \<or> attached s \<Longrightarrow> attached (snd (initialize s))"
  by (cases "init s") (auto simp: initialize_None initialize_Some attached_def)

lemma blank_updateToken: "blank (snd (updateToken t s)) = blank s"
  by (simp add: updateToken_def Let_def blank_def)

lemma attached_updateToken: "attached (snd (updateToken t s)) = attached s"
  by (simp add: updateToken_def Let_def attached_def)

lemma blank_perform: "c \<noteq> Initialize \<Longrightarrow> blank s \<Longrightarrow> blank (perform c s)"
  by (cases c)
     (simp_all add: blank_core [OF core_on] blank_core [OF core_off] destroy_blank
        blank_updateToken play_def pause_def setVolume_def setSubtitles_def
        blank_core [OF core_publishCommand])

lemma attached_perform: "attached s \<Longrightarrow> attached (perform c s)"
  by (cases c)
     (simp_all add: attached_core [OF core_on] attached_core [OF core_off] destroy_attached
        attached_updateToken play_def pause_def setVolume_def setSubtitles_def
        attached_core [OF core_publishCommand] attached_initialize)

lemma blank_step:
  assumes "Initialize \<notin> set (callsOf t)" and "blank s"
  shows "blank (step t s)"
proof (cases t)
  case (Script cs)
  have "Initialize \<notin> set cs \<Longrightarrow> blank s \<Longrightarrow> blank (foldl (\<lambda>s' c. perform c s') s cs)" for cs s
    by (induction cs arbitrary: s) (auto simp: blank_perform)
  with assms Script show ?thesis by (simp add: blank_core [OF core_drain])
next
  case (Message m)
  with assms show ?thesis by (simp add: blank_core [OF core_deliver])
next
  case (Elapse n)
  with assms show ?thesis by (simp add: blank_core [OF core_elapse])
qed

lemma blank_run:
  "\<forall>t \<in> set ts. Initialize \<notin> set (callsOf t) \<Longrightarrow> blank s \<Longrightarrow> blank (run ts s)"
  unfolding run_def by (induction ts arbitrary: s) (auto simp: blank_step)

lemma attached_step: "attached s \<Longrightarrow> attached (step t s)"
proof (cases t)
  case (Script cs)
  have "attached s \<Longrightarrow> attached (foldl (\<lambda>s' c. perform c s') s cs)" for cs s
    by (induction cs arbitrary: s) (auto simp: attached_perform)
  then show "attached s \<Longrightarrow> ?thesis" using Script by (simp add: attached_core [OF core_drain])
next
  case (Message m)
  then show "attached s \<Longrightarrow> ?thesis" by (simp add: attached_core [OF core_deliver])
next
  case (Elapse n)
  then show "attached s \<Longrightarrow> ?thesis" by (simp add: attached_core [OF core_elapse])
qed

lemma attached_run: "attached s \<Longrightarrow> attached (run ts s)"
  unfolding run_def by (induction ts arbitrary: s) (auto simp: attached_step)

lemma blank_new: "blank (VbrickEmbed_new url cfg)"
  by (simp add: blank_def VbrickEmbed_new_def)


lemma init_drain: "init (drain s) = init s"
  by (simp add: drain_fields)

lemma init_deliver: "init (deliver m s) = init s"
  by (simp add: deliver_fields)

lemma microtasks_awaitEvent: "microtasks (EventBus_awaitEvent b ok err tm k s) = microtasks s"
  by (simp add: EventBus_awaitEvent_def Let_def setTimeout_def bus_defs split: option.split prod.split)

lemma microtasks_initialize_catch: "microtasks (initialize_catch p e s) = microtasks s"
  by (simp add: initialize_catch_def Let_def settlePromise_def bus_defs split: option.split)

lemma microtasks_initialize_then: "microtasks (initialize_then p tok tm s) = microtasks s"
  by (simp add: initialize_then_def microtasks_initialize_catch settlePromise_def
        microtasks_awaitEvent bus_defs split: option.split)

lemma microtasks_updateToken_resume: "microtasks (updateToken_resume p tok s) = microtasks s"
  by (simp add: updateToken_resume_def updateToken_catch_def settlePromise_def
        microtasks_awaitEvent bus_defs split: option.split sum.split)

lemma microtasks_react: "microtasks (react k r s) = microtasks s"
  by (cases "(k, r, s)" rule: react.cases)
     (simp_all add: microtasks_initialize_then microtasks_initialize_catch
        updateToken_catch_def settlePromise_def)

lemma microtasks_run_microtask: "microtasks (run_microtask t s) = microtasks s"
  by (cases t)
     (simp_all add: microtasks_react microtasks_initialize_catch microtasks_updateToken_resume)

lemma drainLoop_empties: "jobsLeft (microtasks s) \<le> k \<Longrightarrow> microtasks (drainLoop k s) = []"
proof (induction k arbitrary: s)
  case 0
  then show ?case by (cases "microtasks s") (simp_all add: jobsLeft_def)
next
  case (Suc k)
  show ?case
  proof (cases "microtasks s")
    case Nil
    then show ?thesis by simp
  next
    case (Cons j q)
    obtain n t where j: "j = (n, t)" by (cases j)
    have "jobsLeft (microtasks (runJob j (s\<lparr>microtasks := q\<rparr>))) \<le> k"
      using Suc.prems Cons unfolding j
      by (cases n) (simp_all add: jobsLeft_def microtasks_run_microtask)
    then have "microtasks (drainLoop k (runJob j (s\<lparr>microtasks := q\<rparr>))) = []"
      by (rule Suc.IH)
    with Cons show ?thesis by simp
  qed
qed

lemma microtasks_drain: "microtasks (drain s) = []"
  unfolding drain_def by (rule drainLoop_empties) simp

lemma drain_idle: "microtasks s = [] \<Longrightarrow> drain s = s"
  by (simp add: drain_def jobsLeft_def)

lemma drainLoop_single:
  "microtasks s = [(n, t)] \<Longrightarrow> drainLoop (Suc n) s = run_microtask t (s\<lparr>microtasks := []\<rparr>)"
proof (induction n arbitrary: s)
  case 0
  then show ?case by simp
next
  case (Suc n)
  have "drainLoop (Suc n) (s\<lparr>microtasks := [(n, t)]\<rparr>) =
        run_microtask t (s\<lparr>microtasks := [(n, t)]\<rparr>\<lparr>microtasks := []\<rparr>)"
    by (rule Suc.IH) simp
  with Suc.prems show ?case by simp
qed

lemma drain_single:
  "microtasks s = [(n, t)] \<Longrightarrow> drain s = run_microtask t (s\<lparr>microtasks := []\<rparr>)"
  unfolding drain_def jobsLeft_def by (simp add: drainLoop_single del: drainLoop.simps)

lemma drain_eval:
  "drain s =
     (case microtasks s of
        [] \<Rightarrow> s
      | j # q \<Rightarrow>
          (case q of
             [] \<Rightarrow> run_microtask (snd j) (s\<lparr>microtasks := []\<rparr>)
           | j' # q' \<Rightarrow> drainLoop (jobsLeft (j # j' # q')) s))"
proof (cases "microtasks s")
  case Nil
  then show ?thesis by (simp add: drain_idle)
next
  case (Cons j q)
  show ?thesis
  proof (cases q)
    case Nil
    obtain n t where "j = (n, t)" by (cases j)
    with Cons Nil show ?thesis by (simp add: drain_single)
  next
    case (Cons j' q')
    with \<open>microtasks s = j # q\<close> show ?thesis by (simp add: drain_def)
  qed
qed

lemmas model_defs = run_def drain_eval jobsLeft_def deliver_def elapse_def fire_def initialize_def
  render_def EventBus_new_def initializeEmbed_def EventBus_awaitEvent_def setTimeout_def
  clearTimeout_def settle_def initializeToken_def timeoutOf_def orDefault_def
  initialize_then_def initialize_catch_def settlePromise_def updateToken_def
  updateToken_resume_def updateToken_catch_def on_def off_def destroy_def removeElement_def
  EventBus_dispatch_def listenersFor_def callClient_def VbrickEmbed_new_def emptyBus_def
  sampleConfig_def accessToken_def jwtToken_def publishCommand_def play_def pause_def
  setVolume_def setSubtitles_def EventBus_defaultTimeout_def Let_def

lemma internal_not_removable: "e \<in> set internalEntries \<Longrightarrow> \<not> removable e"
  by (auto simp: internalEntries_def)

lemma plumbed_evolves:
  assumes "plumbed s" and "evolves s s'" and "eventBus s' = eventBus s"
  shows "plumbed s'"
  unfolding plumbed_def
proof (intro conjI allI impI)
  fix b e
  assume "e \<in> set (handlers (buses s' b))"
  then show "okEntry e"
    using assms(1,2) unfolding plumbed_def evolves_def by blast
next
  fix b e
  assume "eventBus s' = Some b" and e: "e \<in> set internalEntries"
  then have "e \<in> set (handlers (buses s b))"
    using assms(1,3) unfolding plumbed_def by metis
  then show "e \<in> set (handlers (buses s' b))"
    using assms(2) internal_not_removable [OF e] unfolding evolves_def by blast
qed

lemma buses_initialize:
  assumes "init s = None"
  shows "buses (snd (initialize s)) =
         (buses s)(Suc (fresh s) :=
            \<lparr>boundIframe = fresh s,
             handlers = internalEntries @
               [(''load'', AwaitResolve (Suc (Suc (Suc (fresh s))))),
                (''error'', AwaitReject (Suc (Suc (Suc (fresh s)))))],
             sent = [], localErrors = [], isDestroyed = False\<rparr>)"
  using assms
  by (simp add: initialize_def Let_def render_def EventBus_new_def initializeEmbed_def
        buses_awaitEvent bus_defs emptyBus_def internalEntries_def split: prod.split sum.split)

lemma plumbed_initialize: "plumbed s \<Longrightarrow> plumbed (snd (initialize s))"
proof (cases "init s")
  case None
  assume "plumbed s"
  then show ?thesis
    unfolding plumbed_def buses_initialize [OF None] initialize_None(3) [OF None]
    by (auto simp: internalEntries_def)
next
  case (Some p)
  assume "plumbed s"
  with Some show ?thesis by (simp add: initialize_Some)
qed

lemma plumbed_perform: "plumbed s \<Longrightarrow> plumbed (perform c s)"
proof (cases c)
  case Initialize
  then show "plumbed s \<Longrightarrow> ?thesis" by (simp add: plumbed_initialize)
next
  case (On ev l)
  have "evolves s (snd (on ev l s))"
    by (simp add: on_def evolves_refl evolves_on split: option.split)
  then show "plumbed s \<Longrightarrow> ?thesis"
    using On by (auto intro: plumbed_evolves simp: on_fields)
next
  case (Off ev l)
  have "evolves s (snd (off ev l s))"
    by (simp add: off_def evolves_refl evolves_off split: option.split)
  then show "plumbed s \<Longrightarrow> ?thesis"
    using Off by (auto intro: plumbed_evolves simp: off_fields)
next
  case Destroy
  have "evolves s (snd (destroy s))"
    by (simp add: destroy_def Let_def removeElement_def evolves_def bus_defs split: option.split)
  moreover have "eventBus (snd (destroy s)) = eventBus s"
    by (simp add: destroy_def Let_def removeElement_def bus_defs split: option.split)
  ultimately show "plumbed s \<Longrightarrow> ?thesis"
    using Destroy by (auto intro: plumbed_evolves)
next
  case (UpdateToken t)
  have "evolves s (snd (updateToken t s))" "eventBus (snd (updateToken t s)) = eventBus s"
    by (simp_all add: updateToken_def Let_def evolves_def)
  then show "plumbed s \<Longrightarrow> ?thesis"
    using UpdateToken by (auto intro: plumbed_evolves)
next
  case Play
  have "evolves s (snd (publishCommand ev d s))" for ev d
    by (simp add: publishCommand_def evolves_refl evolves_publish split: option.split)
  then show "plumbed s \<Longrightarrow> ?thesis"
    using Play by (auto intro: plumbed_evolves simp: publishCommand_fields play_def)
next
  case Pause
  have "evolves s (snd (publishCommand ev d s))" for ev d
    by (simp add: publishCommand_def evolves_refl evolves_publish split: option.split)
  then show "plumbed s \<Longrightarrow> ?thesis"
    using Pause by (auto intro: plumbed_evolves simp: publishCommand_fields pause_def)
next
  case (SetVolume v)
  have "evolves s (snd (publishCommand ev d s))" for ev d
    by (simp add: publishCommand_def evolves_refl evolves_publish split: option.split)
  then show "plumbed s \<Longrightarrow> ?thesis"
    using SetVolume by (auto intro: plumbed_evolves simp: publishCommand_fields setVolume_def)
next
  case (SetSubtitles sub)
  have "evolves s (snd (publishCommand ev d s))" for ev d
    by (simp add: publishCommand_def evolves_refl evolves_publish split: option.split)
  then show "plumbed s \<Longrightarrow> ?thesis"
    using SetSubtitles by (auto intro: plumbed_evolves simp: publishCommand_fields setSubtitles_def)
qed

lemma plumbed_step: "plumbed s \<Longrightarrow> plumbed (step t s)"
proof (cases t)
  case (Script cs)
  have "plumbed s \<Longrightarrow> plumbed (foldl (\<lambda>s' c. perform c s') s cs)" for s
    by (induction cs arbitrary: s) (simp_all add: plumbed_perform)
  then show "plumbed s \<Longrightarrow> ?thesis"
    using Script by (auto intro: plumbed_evolves [OF _ evolves_drain] simp: drain_fields)
next
  case (Message m)
  then show "plumbed s \<Longrightarrow> ?thesis"
    by (auto intro: plumbed_evolves [OF _ evolves_deliver] simp: deliver_fields)
next
  case (Elapse n)
  then show "plumbed s \<Longrightarrow> ?thesis"
    by (auto intro: plumbed_evolves [OF _ evolves_elapse] simp: elapse_fields)
qed

lemma plumbed_run: "plumbed s \<Longrightarrow> plumbed (run ts s)"
  unfolding run_def by (induction ts arbitrary: s) (simp_all add: plumbed_step)

lemma plumbed_new: "plumbed (VbrickEmbed_new url cfg)"
  by (simp add: plumbed_def VbrickEmbed_new_def emptyBus_def)

lemma idle_fire: "microtasks s = [] \<Longrightarrow> microtasks (fire t s) = []"
  by (simp add: fire_def microtasks_drain)

lemma idle_step: "microtasks s = [] \<Longrightarrow> microtasks (step t s) = []"
proof (cases t)
  case (Script cs)
  then show ?thesis by (simp add: microtasks_drain)
next
  case (Message m)
  then show "microtasks s = [] \<Longrightarrow> ?thesis"
    by (simp add: deliver_def microtasks_drain split: option.split)
next
  case (Elapse n)
  have "microtasks s = [] \<Longrightarrow> microtasks (foldl (\<lambda>s' t. fire t s') s xs) = []" for xs s
    by (induction xs arbitrary: s) (simp_all add: idle_fire)
  then show "microtasks s = [] \<Longrightarrow> ?thesis"
    using Elapse by (simp add: elapse_def Let_def)
qed

lemma idle_run: "microtasks s = [] \<Longrightarrow> microtasks (run ts s) = []"
  unfolding run_def by (induction ts arbitrary: s) (simp_all add: idle_step)

lemma idle_new: "microtasks (VbrickEmbed_new url cfg) = []"
  by (simp add: VbrickEmbed_new_def)


lemma in_listenersFor: "l \<in> set (listenersFor ev B) \<longleftrightarrow> (ev, l) \<in> set (handlers B)"
  by (force simp: listenersFor_def)

lemma consumed_quiet: "consumed m \<Longrightarrow> okEntry (eventName m, l) \<Longrightarrow> \<not> removable (eventName m, l)"
  by (cases m; cases l) simp_all

lemma consumed_handler:
  "consumed m \<Longrightarrow> \<exists>h. (eventName m, h) \<in> set internalEntries \<and> (\<forall>s. applied m (invoke h m s))"
  by (cases m) (auto simp: internalEntries_def)

lemma invoke_quiet_calls: "\<not> removable (ev, l) \<Longrightarrow> calls (invoke l m s) = calls s"
  by (cases "(l, m, s)" rule: invoke.cases) (simp_all add: setTimeout_def)

lemma invoke_quiet_microtasks:
  "\<not> removable (ev, l) \<Longrightarrow> microtasks (invoke l m s) = microtasks s"
  by (cases "(l, m, s)" rule: invoke.cases) (simp_all add: setTimeout_def)

lemma invoke_quiet_timers:
  "\<not> removable (ev, l) \<Longrightarrow> set (timers s) \<subseteq> set (timers (invoke l m s))"
  by (cases "(l, m, s)" rule: invoke.cases) (auto simp: setTimeout_def)

lemma applied_setTimeout: "applied m (snd (setTimeout k d s)) = applied m s"
  by (cases m) (simp_all add: setTimeout_def)

lemma invoke_quiet_applied:
  "\<not> removable (ev, l) \<Longrightarrow> applied m s \<Longrightarrow> applied m (invoke l m s)"
  by (cases "(l, m, s)" rule: invoke.cases) (simp_all add: applied_setTimeout)

lemmas invoke_quiet =
  invoke_quiet_calls invoke_quiet_microtasks invoke_quiet_timers invoke_quiet_applied

lemma invoke_Deferred_timer: "\<exists>t \<in> set (timers (invoke (Deferred c) m s)). task t = CallClient c m"
  by (simp add: setTimeout_def)

lemma foldl_invoke_quiet:
  assumes "\<forall>l \<in> set ls. \<not> removable (ev, l)"
  shows "calls (foldl (\<lambda>s' l. invoke l m s') s ls) = calls s \<and>
         microtasks (foldl (\<lambda>s' l. invoke l m s') s ls) = microtasks s \<and>
         set (timers s) \<subseteq> set (timers (foldl (\<lambda>s' l. invoke l m s') s ls)) \<and>
         (applied m s \<longrightarrow> applied m (foldl (\<lambda>s' l. invoke l m s') s ls))"
  using assms
proof (induction ls arbitrary: s)
  case Nil
  show ?case by simp
next
  case (Cons l ls)
  have q: "\<not> removable (ev, l)" using Cons.prems by simp
  have ih: "calls (foldl (\<lambda>s' l. invoke l m s') (invoke l m s) ls) = calls (invoke l m s) \<and>
         microtasks (foldl (\<lambda>s' l. invoke l m s') (invoke l m s) ls) = microtasks (invoke l m s) \<and>
         set (timers (invoke l m s)) \<subseteq> set (timers (foldl (\<lambda>s' l. invoke l m s') (invoke l m s) ls)) \<and>
         (applied m (invoke l m s) \<longrightarrow> applied m (foldl (\<lambda>s' l. invoke l m s') (invoke l m s) ls))"
    using Cons.prems by (intro Cons.IH) simp
  show ?case
    using ih invoke_quiet_calls [OF q, where m = m and s = s]
      invoke_quiet_microtasks [OF q, where m = m and s = s]
      invoke_quiet_timers [OF q, where m = m and s = s]
      invoke_quiet_applied [OF q, where m = m and s = s]
    by auto
qed

lemma foldl_invoke_reaches:
  assumes "\<forall>l \<in> set ls. \<not> removable (ev, l)" and "h \<in> set ls"
  shows "(\<forall>s'. applied m (invoke h m s')) \<longrightarrow> applied m (foldl (\<lambda>s' l. invoke l m s') s ls)"
    and "h = Deferred c \<longrightarrow>
         (\<exists>t \<in> set (timers (foldl (\<lambda>s' l. invoke l m s') s ls)). task t = CallClient c m)"
proof -
  obtain xs ys where ls: "ls = xs @ h # ys"
    using assms(2) by (auto dest: split_list)
  let ?s1 = "foldl (\<lambda>s' l. invoke l m s') s xs"
  have ys: "\<forall>l \<in> set ys. \<not> removable (ev, l)" using assms(1) ls by simp
  have f: "foldl (\<lambda>s' l. invoke l m s') s ls = foldl (\<lambda>s' l. invoke l m s') (invoke h m ?s1) ys"
    by (simp add: ls)
  show "(\<forall>s'. applied m (invoke h m s')) \<longrightarrow> applied m (foldl (\<lambda>s' l. invoke l m s') s ls)"
    using foldl_invoke_quiet [OF ys, where m = m and s = "invoke h m ?s1"] unfolding f by blast
  show "h = Deferred c \<longrightarrow>
         (\<exists>t \<in> set (timers (foldl (\<lambda>s' l. invoke l m s') s ls)). task t = CallClient c m)"
    using foldl_invoke_quiet [OF ys, where m = m and s = "invoke h m ?s1"]
      invoke_Deferred_timer [of c m ?s1]
    unfolding f by blast
qed

lemma deliver_consumed:
  assumes "plumbed s" and "microtasks s = []" and "eventBus s = Some b"
    and "\<not> isDestroyed (buses s b)" and "consumed m"
  shows "applied m (deliver m s)"
    and "calls (deliver m s) = calls s"
    and "microtasks (deliver m s) = []"
    and "(eventName m, Deferred c) \<in> set (handlers (buses s b)) \<Longrightarrow>
         \<exists>t \<in> set (timers (deliver m s)). task t = CallClient c m"
proof -
  let ?ls = "listenersFor (eventName m) (buses s b)"
  let ?d = "foldl (\<lambda>s' l. invoke l m s') s ?ls"
  have q: "\<forall>l \<in> set ?ls. \<not> removable (eventName m, l)"
  proof
    fix l
    assume "l \<in> set ?ls"
    then have "(eventName m, l) \<in> set (handlers (buses s b))"
      by (simp add: in_listenersFor)
    then have "okEntry (eventName m, l)"
      using assms(1) unfolding plumbed_def by blast
    then show "\<not> removable (eventName m, l)"
      using assms(5) by (rule consumed_quiet [rotated])
  qed
  have d: "EventBus_dispatch b m s = ?d"
    using assms(4) by (simp add: EventBus_dispatch_def)
  have idle: "microtasks ?d = []"
    using foldl_invoke_quiet [OF q, where m = m and s = s] assms(2) by simp
  have del: "deliver m s = ?d"
    using assms(3) idle by (simp add: deliver_def d drain_idle)
  obtain h where h: "(eventName m, h) \<in> set internalEntries" "\<forall>s. applied m (invoke h m s)"
    using consumed_handler [OF assms(5)] by blast
  have "h \<in> set ?ls"
    using h(1) assms(1,3) by (simp add: in_listenersFor plumbed_def)
  then show "applied m (deliver m s)"
    using foldl_invoke_reaches(1) [OF q, where h = h and m = m and s = s] h(2) unfolding del by blast
  show "calls (deliver m s) = calls s"
    using foldl_invoke_quiet [OF q, where m = m and s = s] unfolding del by simp
  show "microtasks (deliver m s) = []"
    using idle unfolding del .
  show "\<exists>t \<in> set (timers (deliver m s)). task t = CallClient c m"
    if "(eventName m, Deferred c) \<in> set (handlers (buses s b))"
  proof -
    have "Deferred c \<in> set ?ls" using that by (simp add: in_listenersFor)
    then show ?thesis
      using foldl_invoke_reaches(2) [OF q, where h = "Deferred c" and c = c and m = m and s = s]
      unfolding del by blast
  qed
qed



lemma map_of_without:
  "map_of (filter (\<lambda>kv. fst kv \<noteq> a) xs) k = (if k = a then None else map_of xs k)"
  by (induction xs) auto

lemma handshakeTimeout_nonzero: "handshakeTimeout c \<noteq> 0"
  by (simp add: handshakeTimeout_def timeoutOf_def EventBus_defaultTimeout_def
        split: option.split)

lemma awaitEvent_state:
  "awaits (EventBus_awaitEvent b ok err tm k s) =
     awaits s @ [(fresh s, \<lparr>awaitBus = b, successEvent = ok, failEvent = err,
        awaitTimer =
          (if (case tm of None \<Rightarrow> EventBus_defaultTimeout | Some t \<Rightarrow> t) = 0 then None
           else Some (nextTimer s)),
        cont = k\<rparr>)]"
  "timers (EventBus_awaitEvent b ok err tm k s) =
     timers s @
       (if (case tm of None \<Rightarrow> EventBus_defaultTimeout | Some t \<Rightarrow> t) = 0 then []
        else [\<lparr>timerId = nextTimer s,
               due = now s + nat (case tm of None \<Rightarrow> EventBus_defaultTimeout | Some t \<Rightarrow> t),
               task = AwaitTimeout (fresh s)\<rparr>])"
  "fresh (EventBus_awaitEvent b ok err tm k s) = Suc (fresh s)"
  "promises (EventBus_awaitEvent b ok err tm k s) = promises s"
  "playerStatus (EventBus_awaitEvent b ok err tm k s) = playerStatus s"
  "now (EventBus_awaitEvent b ok err tm k s) = now s"
  "calls (EventBus_awaitEvent b ok err tm k s) = calls s"
  by (simp_all add: EventBus_awaitEvent_def Let_def setTimeout_def bus_defs split: prod.split)

lemma initialize_microtasks:
  assumes "init s = None"
  shows "microtasks (snd (initialize s)) =
           microtasks s @ (case initializeToken s of
                             Inl e \<Rightarrow> [(Suc (Suc 0), InitTokenRejected (Suc (Suc (fresh s))) e)]
                           | Inr t \<Rightarrow> [])"
proof (cases "token (config s)")
  case None
  with assms show ?thesis
    by (simp add: initialize_def Let_def render_def EventBus_new_def initializeEmbed_def
        initializeToken_def microtasks_awaitEvent bus_defs split: prod.split)
next
  case (Some t)
  with assms show ?thesis
    by (cases "tokenType t = ACCESS_TOKEN")
       (simp_all add: initialize_def Let_def render_def EventBus_new_def initializeEmbed_def
        initializeToken_def microtasks_awaitEvent bus_defs split: prod.split)
qed

lemmas initialize_defs = initialize_def Let_def render_def EventBus_new_def initializeEmbed_def
  initializeToken_def bus_defs

lemma initialize_awaits:
  assumes "init s = None"
  shows "awaits (snd (initialize s)) =
           awaits s @ [(fresh s + 3,
             \<lparr>awaitBus = Suc (fresh s), successEvent = ''load'', failEvent = ''error'',
              awaitTimer = Some (nextTimer s),
              cont = InitAll (Suc (Suc (fresh s))) (initializeToken s) (timeoutOf (config s))\<rparr>)]"
proof (cases "token (config s)")
  case None
  with assms handshakeTimeout_nonzero [of "config s"] show ?thesis
    by (simp add: initialize_defs awaitEvent_state handshakeTimeout_def split: prod.split)
next
  case (Some t)
  with assms handshakeTimeout_nonzero [of "config s"] show ?thesis
    by (cases "tokenType t = ACCESS_TOKEN")
       (simp_all add: initialize_defs awaitEvent_state handshakeTimeout_def split: prod.split)
qed

lemma initialize_timers:
  assumes "init s = None"
  shows "timers (snd (initialize s)) =
           timers s @ [\<lparr>timerId = nextTimer s, due = now s + nat (handshakeTimeout (config s)),
                        task = AwaitTimeout (fresh s + 3)\<rparr>]"
proof (cases "token (config s)")
  case None
  with assms handshakeTimeout_nonzero [of "config s"] show ?thesis
    by (simp add: initialize_defs awaitEvent_state handshakeTimeout_def split: prod.split)
next
  case (Some t)
  with assms handshakeTimeout_nonzero [of "config s"] show ?thesis
    by (cases "tokenType t = ACCESS_TOKEN")
       (simp_all add: initialize_defs awaitEvent_state handshakeTimeout_def split: prod.split)
qed

lemma initialize_container:
  assumes "init s = None"
  shows "map elementId (container (snd (initialize s))) = map elementId (container s) @ [fresh s]"
    and "map src (container (snd (initialize s))) = map src (container s) @ [iframeUrl s]"
  using assms
  by (simp_all add: initialize_def Let_def render_def EventBus_new_def initializeEmbed_def
        awaitEvent_fields bus_defs split: prod.split sum.split)

lemma initialize_rest:
  assumes "init s = None"
  shows "promises (snd (initialize s)) = promises s"
    and "playerStatus (snd (initialize s)) = playerStatus s"
    and "now (snd (initialize s)) = now s"
    and "calls (snd (initialize s)) = calls s"
  using assms
  by (simp_all add: initialize_def Let_def render_def EventBus_new_def initializeEmbed_def
        awaitEvent_state bus_defs split: prod.split sum.split)

lemma settle_state:
  assumes "map_of (awaits s) w = Some a"
  shows "microtasks (settle w r s) = microtasks s @ [(reactionDepth (cont a) r, Settled (cont a) r)]"
    and "sent (buses (settle w r s) b) = sent (buses s b)"
    and "localErrors (buses (settle w r s) b) = localErrors (buses s b)"
    and "isDestroyed (buses (settle w r s) b) = isDestroyed (buses s b)"
    and "promises (settle w r s) = promises s"
    and "playerStatus (settle w r s) = playerStatus s"
  using assms by (simp_all add: settle_def Let_def clearTimeout_def bus_defs)

lemma initialize_catch_effects:
  assumes "eventBus s = Some b" and "\<not> isDestroyed (buses s b)"
  shows "playerStatus (initialize_catch p err s) = Error"
    and "sent (buses (initialize_catch p err s) b) =
           sent (buses s b) @ [PublishError ''initializationFailed'']"
    and "localErrors (buses (initialize_catch p err s) b) =
           localErrors (buses s b) @ [(''Error loading embed content'', err)]"
    and "promises (initialize_catch p err s) p = Rejected err"
    and "eventBus (initialize_catch p err s) = Some b"
    and "init (initialize_catch p err s) = init s"
  using assms by (simp_all add: initialize_catch_def settlePromise_def bus_defs Let_def)

lemma initialize_then_effects:
  assumes "eventBus s = Some b" and "\<not> isDestroyed (buses s b)"
  shows "promises (initialize_then p tok tm s) p = Fulfilled"
    and "sent (buses (initialize_then p tok tm s) b) =
           sent (buses s b) @ [Publish ''authenticated'' (JObj [(''token'', tok)])]"
    and "playerStatus (initialize_then p tok tm s) = playerStatus s"
  using assms
  by (simp_all add: initialize_then_def settlePromise_def buses_awaitEvent awaitEvent_state
        awaitEvent_fields bus_defs Let_def)

lemma await_failure:
  assumes "map_of (awaits s) w = Some a" and "cont a = InitAll p (Inr tok) tm"
    and "microtasks s = []" and "eventBus s = Some b" and "\<not> isDestroyed (buses s b)"
  shows "drain (settle w (Inl e) s) = initialize_catch p e ((settle w (Inl e) s)\<lparr>microtasks := []\<rparr>)"
    and "playerStatus (drain (settle w (Inl e) s)) = Error"
    and "sent (buses (drain (settle w (Inl e) s)) b) =
           sent (buses s b) @ [PublishError ''initializationFailed'']"
    and "localErrors (buses (drain (settle w (Inl e) s)) b) =
           localErrors (buses s b) @ [(''Error loading embed content'', e)]"
    and "promises (drain (settle w (Inl e) s)) p = Rejected e"
proof -
  let ?s2 = "(settle w (Inl e) s)\<lparr>microtasks := []\<rparr>"
  have q: "microtasks (settle w (Inl e) s) =
             [(Suc (Suc 0), Settled (InitAll p (Inr tok) tm) (Inl e))]"
    using settle_state(1) [OF assms(1), of "Inl e"] assms(2,3) by simp
  show d: "drain (settle w (Inl e) s) = initialize_catch p e ?s2"
    unfolding drain_single [OF q] by simp
  have b: "eventBus ?s2 = Some b"
    using assms(4) by (simp add: settle_fields)
  have l: "\<not> isDestroyed (buses ?s2 b)"
    using assms(5) settle_state(4) [OF assms(1)] by simp
  note c = initialize_catch_effects [OF b l, of p e]
  show "playerStatus (drain (settle w (Inl e) s)) = Error"
    unfolding d by (rule c(1))
  show "sent (buses (drain (settle w (Inl e) s)) b) =
           sent (buses s b) @ [PublishError ''initializationFailed'']"
    unfolding d c(2) using settle_state(2) [OF assms(1)] by simp
  show "localErrors (buses (drain (settle w (Inl e) s)) b) =
           localErrors (buses s b) @ [(''Error loading embed content'', e)]"
    unfolding d c(3) using settle_state(3) [OF assms(1)] by simp
  show "promises (drain (settle w (Inl e) s)) p = Rejected e"
    unfolding d by (rule c(4))
qed

lemma await_success:
  assumes "map_of (awaits s) w = Some a" and "cont a = InitAll p (Inr tok) tm"
    and "microtasks s = []" and "eventBus s = Some b" and "\<not> isDestroyed (buses s b)"
  shows "drain (settle w (Inr v) s) =
           initialize_then p tok tm ((settle w (Inr v) s)\<lparr>microtasks := []\<rparr>)"
    and "playerStatus (drain (settle w (Inr v) s)) = playerStatus s"
    and "sent (buses (drain (settle w (Inr v) s)) b) =
           sent (buses s b) @ [Publish ''authenticated'' (JObj [(''token'', tok)])]"
    and "promises (drain (settle w (Inr v) s)) p = Fulfilled"
proof -
  let ?s2 = "(settle w (Inr v) s)\<lparr>microtasks := []\<rparr>"
  have q: "microtasks (settle w (Inr v) s) =
             [(Suc 0, Settled (InitAll p (Inr tok) tm) (Inr v))]"
    using settle_state(1) [OF assms(1), of "Inr v"] assms(2,3) by simp
  show d: "drain (settle w (Inr v) s) = initialize_then p tok tm ?s2"
    unfolding drain_single [OF q] by simp
  have b: "eventBus ?s2 = Some b"
    using assms(4) by (simp add: settle_fields)
  have l: "\<not> isDestroyed (buses ?s2 b)"
    using assms(5) settle_state(4) [OF assms(1)] by simp
  note c = initialize_then_effects [OF b l, of p tok tm]
  show "playerStatus (drain (settle w (Inr v) s)) = playerStatus s"
    unfolding d c(3) using settle_state(6) [OF assms(1)] by simp
  show "sent (buses (drain (settle w (Inr v) s)) b) =
           sent (buses s b) @ [Publish ''authenticated'' (JObj [(''token'', tok)])]"
    unfolding d c(2) using settle_state(2) [OF assms(1)] by simp
  show "promises (drain (settle w (Inr v) s)) p = Fulfilled"
    unfolding d by (rule c(1))
qed

lemma config_perform: "\<not> isUpdateToken c \<Longrightarrow> config (perform c s) = config s"
  by (cases c)
     (simp_all add: config_initialize on_fields off_fields play_def pause_def setVolume_def
        setSubtitles_def publishCommand_fields,
      simp add: destroy_def Let_def removeElement_def bus_defs split: option.split)

lemma config_step:
  assumes "\<forall>c \<in> set (callsOf t). \<not> isUpdateToken c"
  shows "config (step t s) = config s"
proof (cases t)
  case (Script cs)
  have "config (foldl (\<lambda>s' c. perform c s') s cs) = config s"
    using assms Script by (intro foldl_pres_set) (simp add: config_perform)
  with Script show ?thesis by (simp add: drain_fields)
qed (simp_all add: deliver_fields elapse_fields)

lemma config_run:
  assumes "\<forall>t \<in> set ts. \<forall>c \<in> set (callsOf t). \<not> isUpdateToken c"
  shows "config (run ts s) = config s"
  unfolding run_def using assms by (intro foldl_pres_set) (simp add: config_step)

text \<open>
  Once \<open>init\<close> is set, only \<open>destroy\<close> clears it, and a call of \<open>initialize\<close> leaves the
  state as it is.
\<close>

lemma init_perform:
  assumes "init s = Some p" and "c \<noteq> Destroy"
  shows "init (perform c s) = Some p"
  using assms
  by (cases c)
     (simp_all add: initialize_Some on_fields off_fields play_def pause_def setVolume_def
        setSubtitles_def publishCommand_fields updateToken_def Let_def)

lemma init_script:
  assumes "init s = Some p" and "Destroy \<notin> set cs"
  shows "init (foldl (\<lambda>s' c. perform c s') s cs) = Some p"
  using assms by (induction cs arbitrary: s) (auto simp: init_perform)

lemma init_step:
  assumes "init s = Some p" and "Destroy \<notin> set (callsOf t)"
  shows "init (step t s) = Some p"
proof (cases t)
  case (Script cs)
  with assms show ?thesis by (simp add: drain_fields init_script)
qed (simp_all add: deliver_fields elapse_fields assms(1))

lemma init_run:
  assumes "init s = Some p" and "\<forall>t \<in> set ts. Destroy \<notin> set (callsOf t)"
  shows "init (run ts s) = Some p"
  using assms unfolding run_def
  by (induction ts arbitrary: s) (simp_all add: init_step)

lemma script_without_initialize:
  assumes "init s = Some p" and "Destroy \<notin> set cs"
  shows "foldl (\<lambda>s' c. perform c s') s (filter (\<lambda>c. c \<noteq> Initialize) cs) =
         foldl (\<lambda>s' c. perform c s') s cs"
  using assms
proof (induction cs arbitrary: s)
  case Nil
  then show ?case by simp
next
  case (Cons c cs)
  show ?case
  proof (cases "c = Initialize")
    case True
    with Cons show ?thesis by (simp add: initialize_Some)
  next
    case False
    with Cons.prems have "init (perform c s) = Some p" by (auto simp: init_perform)
    with Cons False show ?thesis by simp
  qed
qed

lemma step_without_initialize:
  assumes "init s = Some p" and "Destroy \<notin> set (callsOf t)"
  shows "step (withoutInitialize t) s = step t s"
proof (cases t)
  case (Script cs)
  with assms show ?thesis by (simp add: script_without_initialize)
qed simp_all

lemma run_without_initialize:
  assumes "init s = Some p" and "\<forall>t \<in> set ts. Destroy \<notin> set (callsOf t)"
  shows "run (map withoutInitialize ts) s = run ts s"
  using assms unfolding run_def
proof (induction ts arbitrary: s)
  case Nil
  then show ?case by simp
next
  case (Cons t ts)
  from Cons.prems have i: "init (step t s) = Some p" by (simp add: init_step)
  from Cons.prems have "step (withoutInitialize t) s = step t s"
    by (simp add: step_without_initialize)
  with Cons.IH [OF i] Cons.prems show ?case by simp
qed

lemma new_fields:
  "init (VbrickEmbed_new url cfg) = None"
  "fresh (VbrickEmbed_new url cfg) = 0"
  "microtasks (VbrickEmbed_new url cfg) = []"
  "awaits (VbrickEmbed_new url cfg) = []"
  "timers (VbrickEmbed_new url cfg) = []"
  "now (VbrickEmbed_new url cfg) = 0"
  "config (VbrickEmbed_new url cfg) = cfg"
  "buses (VbrickEmbed_new url cfg) = (\<lambda>b. emptyBus)"
  "nextTimer (VbrickEmbed_new url cfg) = 0"
  "container (VbrickEmbed_new url cfg) = []"
  "playerStatus (VbrickEmbed_new url cfg) = Initializing"
  by (simp_all add: VbrickEmbed_new_def)

text \<open>The state of a new embed right after its first call of \<open>initialize\<close>.\<close>

lemma first_initialize:
  fixes url cfg
  defines "s1 \<equiv> snd (initialize (VbrickEmbed_new url cfg))"
  shows "init s1 = Some 2" and "eventBus s1 = Some 1"
    and "\<not> isDestroyed (buses s1 1)"
    and "sent (buses s1 1) = []" and "localErrors (buses s1 1) = []"
    and "listenersFor ''error'' (buses s1 1) = [AwaitReject 3]"
    and "awaits s1 = [(3, \<lparr>awaitBus = 1, successEvent = ''load'', failEvent = ''error'',
              awaitTimer = Some 0,
              cont = InitAll 2 (initializeToken (VbrickEmbed_new url cfg)) (timeoutOf cfg)\<rparr>)]"
    and "timers s1 = [\<lparr>timerId = 0, due = nat (handshakeTimeout cfg), task = AwaitTimeout 3\<rparr>]"
    and "microtasks s1 = (case initializeToken (VbrickEmbed_new url cfg) of
                             Inl e \<Rightarrow> [(Suc (Suc 0), InitTokenRejected 2 e)] | Inr t \<Rightarrow> [])"
    and "now s1 = 0"
    and "listenersFor ''load'' (buses s1 1) = [AwaitResolve 3]"
    and "length (container s1) = 1"
    and "playerStatus s1 = Initializing"
    and "promises s1 2 = Pending"
proof -
  note n = new_fields [of url cfg]
  show "init s1 = Some 2" "eventBus s1 = Some 1"
    unfolding s1_def using initialize_None [OF n(1)] n(2) by (simp_all add: numeral_2_eq_2)
  have b: "buses s1 1 = \<lparr>boundIframe = 0,
             handlers = internalEntries @ [(''load'', AwaitResolve 3), (''error'', AwaitReject 3)],
             sent = [], localErrors = [], isDestroyed = False\<rparr>"
    unfolding s1_def buses_initialize [OF n(1)] n(2) by (simp add: numeral_3_eq_3)
  show "\<not> isDestroyed (buses s1 1)" "sent (buses s1 1) = []" "localErrors (buses s1 1) = []"
    unfolding b by simp_all
  show "listenersFor ''error'' (buses s1 1) = [AwaitReject 3]"
    unfolding b by (simp add: listenersFor_def internalEntries_def)
  show "listenersFor ''load'' (buses s1 1) = [AwaitResolve 3]"
    unfolding b by (simp add: listenersFor_def internalEntries_def)
  show "awaits s1 = [(3, \<lparr>awaitBus = 1, successEvent = ''load'', failEvent = ''error'',
              awaitTimer = Some 0,
              cont = InitAll 2 (initializeToken (VbrickEmbed_new url cfg)) (timeoutOf cfg)\<rparr>)]"
    unfolding s1_def initialize_awaits [OF n(1)] n
    by (simp add: numeral_2_eq_2)
  show "timers s1 = [\<lparr>timerId = 0, due = nat (handshakeTimeout cfg), task = AwaitTimeout 3\<rparr>]"
    unfolding s1_def initialize_timers [OF n(1)] n by simp
  show "microtasks s1 = (case initializeToken (VbrickEmbed_new url cfg) of
                             Inl e \<Rightarrow> [(Suc (Suc 0), InitTokenRejected 2 e)] | Inr t \<Rightarrow> [])"
    unfolding s1_def initialize_microtasks [OF n(1)] n
    by (simp add: numeral_2_eq_2 split: sum.split)
  show "now s1 = 0"
    unfolding s1_def initialize_rest(3) [OF n(1)] n ..
  have "map elementId (container s1) = [0]"
    unfolding s1_def initialize_container(1) [OF n(1)] n by simp
  then have "length (map elementId (container s1)) = 1" by simp
  then show "length (container s1) = 1" by simp
  show "playerStatus s1 = Initializing"
    unfolding s1_def initialize_rest(2) [OF n(1)] n ..
  show "promises s1 2 = Pending"
    unfolding s1_def initialize_rest(1) [OF n(1)] by (simp add: VbrickEmbed_new_def)
qed

lemma error_event_fails:
  assumes "initializeToken (VbrickEmbed_new url cfg) = Inr tok"
  shows "handshakeFailed (run [Script [Initialize], Message (ErrorEvent msg)] (VbrickEmbed_new url cfg))
           (Remote (ErrorEvent msg))"
proof -
  let ?s1 = "snd (initialize (VbrickEmbed_new url cfg))"
  note f = first_initialize [of url cfg]
  have m: "microtasks ?s1 = []" using f(9) assms by simp
  have w: "map_of (awaits ?s1) 3 = Some \<lparr>awaitBus = 1, successEvent = ''load'', failEvent = ''error'',
              awaitTimer = Some 0, cont = InitAll 2 (Inr tok) (timeoutOf cfg)\<rparr>"
    unfolding f(7) assms by simp
  have r: "run [Script [Initialize], Message (ErrorEvent msg)] (VbrickEmbed_new url cfg) =
           drain (settle 3 (Inl (Remote (ErrorEvent msg))) ?s1)"
    using m f(2,3,6) by (simp add: run_def drain_idle deliver_def EventBus_dispatch_def)
  note a = await_failure [OF w _ m f(2,3), of 2 tok "timeoutOf cfg" "Remote (ErrorEvent msg)"]
  have i: "init (drain (settle 3 (Inl (Remote (ErrorEvent msg))) ?s1)) = Some 2"
    "eventBus (drain (settle 3 (Inl (Remote (ErrorEvent msg))) ?s1)) = Some 1"
    using f(1,2) by (simp_all add: drain_fields settle_fields)
  show ?thesis
    unfolding handshakeFailed_def r using a i f(4,5) by simp
qed

lemma load_event_succeeds:
  assumes "initializeToken (VbrickEmbed_new url cfg) = Inr tok"
  shows "promises (run [Script [Initialize], Message Load] (VbrickEmbed_new url cfg)) 2 = Fulfilled"
    and "sent (buses (run [Script [Initialize], Message Load] (VbrickEmbed_new url cfg)) 1) =
           [Publish ''authenticated'' (JObj [(''token'', tok)])]"
    and "length (container (run [Script [Initialize], Message Load] (VbrickEmbed_new url cfg))) = 1"
    and "init (run [Script [Initialize], Message Load] (VbrickEmbed_new url cfg)) = Some 2"
proof -
  let ?s1 = "snd (initialize (VbrickEmbed_new url cfg))"
  note f = first_initialize [of url cfg]
  have m: "microtasks ?s1 = []" using f(9) assms by simp
  have w: "map_of (awaits ?s1) 3 = Some \<lparr>awaitBus = 1, successEvent = ''load'', failEvent = ''error'',
              awaitTimer = Some 0, cont = InitAll 2 (Inr tok) (timeoutOf cfg)\<rparr>"
    unfolding f(7) assms by simp
  have r: "run [Script [Initialize], Message Load] (VbrickEmbed_new url cfg) =
           drain (settle 3 (Inr Load) ?s1)"
    using m f(2,3,11) by (simp add: run_def drain_idle deliver_def EventBus_dispatch_def)
  note a = await_success [OF w _ m f(2,3), of 2 tok "timeoutOf cfg" Load]
  show "promises (run [Script [Initialize], Message Load] (VbrickEmbed_new url cfg)) 2 = Fulfilled"
    unfolding r using a(4) by simp
  show "sent (buses (run [Script [Initialize], Message Load] (VbrickEmbed_new url cfg)) 1) =
           [Publish ''authenticated'' (JObj [(''token'', tok)])]"
    unfolding r using a(3) f(4) by simp
  show "length (container (run [Script [Initialize], Message Load] (VbrickEmbed_new url cfg))) = 1"
    unfolding r using f(12) by (simp add: drain_fields settle_fields)
  show "init (run [Script [Initialize], Message Load] (VbrickEmbed_new url cfg)) = Some 2"
    unfolding r using f(1) by (simp add: drain_fields settle_fields)
qed

text \<open>
  The timer of the first wait of \<open>initialize\<close>: nothing happens before it is due, and when
  it is due the handshake fails.
\<close>

lemma handshake_timeout_fails:
  assumes "initializeToken (VbrickEmbed_new url cfg) = Inr tok"
  shows "handshakeFailed
           (run [Script [Initialize], Elapse (nat (handshakeTimeout cfg))] (VbrickEmbed_new url cfg))
           TimedOut"
proof -
  let ?d = "nat (handshakeTimeout cfg)"
  let ?s1 = "snd (initialize (VbrickEmbed_new url cfg))"
  let ?tm = "\<lparr>timerId = 0, due = ?d, task = AwaitTimeout 3\<rparr>"
  let ?s1' = "?s1\<lparr>timers := [], now := ?d\<rparr>"
  note f = first_initialize [of url cfg]
  have m: "microtasks ?s1 = []" using f(9) assms by simp
  have tm: "timers ?s1 = [?tm]" unfolding f(8) by simp
  have el: "elapse ?d ?s1 = (drain (settle 3 (Inl TimedOut) ?s1'))\<lparr>now := ?d\<rparr>"
    using tm f(10) by (simp add: elapse_def fire_def Let_def)
  have r: "run [Script [Initialize], Elapse ?d] (VbrickEmbed_new url cfg) =
           (drain (settle 3 (Inl TimedOut) ?s1'))\<lparr>now := ?d\<rparr>"
    using m el by (simp add: run_def drain_idle)
  have w: "map_of (awaits ?s1') 3 = Some \<lparr>awaitBus = 1, successEvent = ''load'', failEvent = ''error'',
              awaitTimer = Some 0, cont = InitAll 2 (Inr tok) (timeoutOf cfg)\<rparr>"
    using f(7) assms(1) by simp
  have m': "microtasks ?s1' = []" using m by simp
  have b': "eventBus ?s1' = Some 1" using f(2) by simp
  have l': "\<not> isDestroyed (buses ?s1' 1)" using f(3) by simp
  note a = await_failure [OF w _ m' b' l', of 2 tok "timeoutOf cfg" TimedOut]
  have i: "init (drain (settle 3 (Inl TimedOut) ?s1')) = Some 2"
    "eventBus (drain (settle 3 (Inl TimedOut) ?s1')) = Some 1"
    using f(1,2) by (simp_all add: drain_fields settle_fields)
  show ?thesis
    unfolding handshakeFailed_def r using a i f(4,5) by simp
qed

lemma load_timeout_fails:
  assumes "initializeToken (VbrickEmbed_new url cfg) = Inr tok"
    and "timeoutSeconds cfg = Some t" and "0 < t"
  shows "handshakeFailed (run [Script [Initialize], Elapse (nat (t * 1000))] (VbrickEmbed_new url cfg))
           TimedOut"
proof -
  have "handshakeTimeout cfg = t * 1000"
    using assms(2,3) by (simp add: handshakeTimeout_def timeoutOf_def)
  with handshake_timeout_fails [OF assms(1)] show ?thesis by simp
qed


lemma token_rejection_general:
  assumes "init s = None" and "microtasks s = []" and "initializeToken s = Inl e"
  shows "promises (step (Script [Initialize]) s) (fst (initialize s)) = Rejected e"
    and "playerStatus (step (Script [Initialize]) s) = Error"
    and "eventBus (step (Script [Initialize]) s) = Some (Suc (fresh s))"
    and "sent (buses (step (Script [Initialize]) s) (Suc (fresh s))) =
           [PublishError ''initializationFailed'']"
    and "localErrors (buses (step (Script [Initialize]) s) (Suc (fresh s))) =
           [(''Error loading embed content'', e)]"
proof -
  let ?s1 = "snd (initialize s)"
  let ?s2 = "?s1\<lparr>microtasks := []\<rparr>"
  let ?p = "Suc (Suc (fresh s))"
  have m: "microtasks ?s1 = [(Suc (Suc 0), InitTokenRejected ?p e)]"
    using initialize_microtasks [OF assms(1)] assms(2,3) by simp
  have r: "step (Script [Initialize]) s = initialize_catch ?p e ?s2"
    using drain_single [OF m] by simp
  have b: "eventBus ?s2 = Some (Suc (fresh s))"
    using initialize_None(3) [OF assms(1)] by simp
  have bs: "buses ?s2 (Suc (fresh s)) =
         \<lparr>boundIframe = fresh s,
          handlers = internalEntries @
            [(''load'', AwaitResolve (Suc (Suc (Suc (fresh s))))),
             (''error'', AwaitReject (Suc (Suc (Suc (fresh s)))))],
          sent = [], localErrors = [], isDestroyed = False\<rparr>"
    using buses_initialize [OF assms(1)] by simp
  have l: "\<not> isDestroyed (buses ?s2 (Suc (fresh s)))"
    unfolding bs by simp
  note c = initialize_catch_effects [OF b l, of ?p e]
  show "promises (step (Script [Initialize]) s) (fst (initialize s)) = Rejected e"
    unfolding r initialize_None(1) [OF assms(1)] by (rule c(4))
  show "playerStatus (step (Script [Initialize]) s) = Error"
    unfolding r by (rule c(1))
  show "eventBus (step (Script [Initialize]) s) = Some (Suc (fresh s))"
    unfolding r by (rule c(5))
  show "sent (buses (step (Script [Initialize]) s) (Suc (fresh s))) =
           [PublishError ''initializationFailed'']"
    unfolding r c(2) bs by simp
  show "localErrors (buses (step (Script [Initialize]) s) (Suc (fresh s))) =
           [(''Error loading embed content'', e)]"
    unfolding r c(3) bs by simp
qed

text \<open>
  The order of the jobs. With a token that cannot be resolved, the \<open>catch\<close> of
  \<open>initialize\<close> is two promises down from the rejection, while \<open>updateToken\<close> resumes from
  its \<open>await\<close> in the next job: called in the same script, \<open>updateToken\<close> publishes
  \<open>authChanged\<close> before \<open>initialize\<close> publishes its error.
\<close>

lemma catch_after_resume:
  "sent (buses (run [Script [Initialize, UpdateToken accessToken]]
                  (VbrickEmbed_new ''u'' (sampleConfig\<lparr>token := Some jwtToken\<rparr>))) 1) =
     [Publish ''authChanged'' (JObj [(''token'', JObj [(''accessToken'', JStr ''abc'')])]),
      PublishError ''initializationFailed'']"
  by (simp add: model_defs bus_defs)

section \<open>The claims\<close>

text \<open>
  Claim C1. The first call of \<open>initialize\<close> (in a state where \<open>init\<close> is not set) runs the
  steps of the handshake once: it adds one iframe to the container, constructs one bus
  bound to it, registers the four internal listeners and the wait for \<open>load\<close> on that
  bus, resolves the token once (the outcome is carried by the chain of the promise),
  and stores its promise in \<open>init\<close>. After any tasks that do not call \<open>destroy\<close>, a
  second call returns that same promise and leaves the state as it is, and the calls of
  \<open>initialize\<close> inside those tasks have no effect at all. On a new embed whose token can
  be resolved, with \<open>initialize\<close> called twice before and once after the \<open>load\<close> message,
  \<open>authenticated\<close> is published exactly once, the promise is fulfilled and the container
  holds one iframe.
\<close>

theorem initialize_memoized:
  assumes "init s = None" and "\<forall>t \<in> set ts. Destroy \<notin> set (callsOf t)"
  shows "init (snd (initialize s)) = Some (fst (initialize s)) \<and>
         iframe (snd (initialize s)) = Some (fresh s) \<and>
         map elementId (container (snd (initialize s))) =
           map elementId (container s) @ [fresh s] \<and>
         eventBus (snd (initialize s)) = Some (Suc (fresh s)) \<and>
         buses (snd (initialize s)) =
           (buses s)(Suc (fresh s) :=
              \<lparr>boundIframe = fresh s,
               handlers = internalEntries @
                 [(''load'', AwaitResolve (fresh s + 3)), (''error'', AwaitReject (fresh s + 3))],
               sent = [], localErrors = [], isDestroyed = False\<rparr>) \<and>
         awaits (snd (initialize s)) =
           awaits s @ [(fresh s + 3,
             \<lparr>awaitBus = Suc (fresh s), successEvent = ''load'', failEvent = ''error'',
              awaitTimer = Some (nextTimer s),
              cont = InitAll (fst (initialize s)) (initializeToken s) (timeoutOf (config s))\<rparr>)] \<and>
         initialize (run ts (snd (initialize s))) =
           (fst (initialize s), run ts (snd (initialize s))) \<and>
         run (map withoutInitialize ts) (snd (initialize s)) = run ts (snd (initialize s)) \<and>
         (\<forall>tok. initializeToken (VbrickEmbed_new url cfg) = Inr tok \<longrightarrow>
            sent (buses (run [Script [Initialize, Initialize], Message Load, Script [Initialize]]
                           (VbrickEmbed_new url cfg)) 1) =
              [Publish ''authenticated'' (JObj [(''token'', tok)])] \<and>
            promises (run [Script [Initialize, Initialize], Message Load, Script [Initialize]]
                        (VbrickEmbed_new url cfg)) 2 = Fulfilled \<and>
            length (container (run [Script [Initialize, Initialize], Message Load,
                                    Script [Initialize]] (VbrickEmbed_new url cfg))) = 1)"
proof (intro conjI allI impI)
  note n = initialize_None [OF assms(1)]
  have p: "fst (initialize s) = Suc (Suc (fresh s))" by (rule n(1))
  show i: "init (snd (initialize s)) = Some (fst (initialize s))"
    unfolding p by (rule n(4))
  show "iframe (snd (initialize s)) = Some (fresh s)" by (rule n(2))
  show "map elementId (container (snd (initialize s))) = map elementId (container s) @ [fresh s]"
    using assms(1) by (rule initialize_container(1))
  show "eventBus (snd (initialize s)) = Some (Suc (fresh s))" by (rule n(3))
  show "buses (snd (initialize s)) =
           (buses s)(Suc (fresh s) :=
              \<lparr>boundIframe = fresh s,
               handlers = internalEntries @
                 [(''load'', AwaitResolve (fresh s + 3)), (''error'', AwaitReject (fresh s + 3))],
               sent = [], localErrors = [], isDestroyed = False\<rparr>)"
    unfolding buses_initialize [OF assms(1)] by (simp add: numeral_3_eq_3)
  show "awaits (snd (initialize s)) =
           awaits s @ [(fresh s + 3,
             \<lparr>awaitBus = Suc (fresh s), successEvent = ''load'', failEvent = ''error'',
              awaitTimer = Some (nextTimer s),
              cont = InitAll (fst (initialize s)) (initializeToken s) (timeoutOf (config s))\<rparr>)]"
    unfolding p using assms(1) by (rule initialize_awaits)
  have "init (run ts (snd (initialize s))) = Some (fst (initialize s))"
    using i assms(2) by (rule init_run)
  then show "initialize (run ts (snd (initialize s))) =
           (fst (initialize s), run ts (snd (initialize s)))"
    by (rule initialize_Some)
  show "run (map withoutInitialize ts) (snd (initialize s)) = run ts (snd (initialize s))"
    using i assms(2) by (rule run_without_initialize)
next
  fix tok
  assume tok: "initializeToken (VbrickEmbed_new url cfg) = Inr tok"
  let ?s0 = "VbrickEmbed_new url cfg"
  let ?s1 = "snd (initialize ?s0)"
  have i1: "init ?s1 = Some 2" by (rule first_initialize(1))
  have m1: "microtasks ?s1 = []" using first_initialize(9) [of url cfg] tok by simp
  have m2: "microtasks (deliver Load ?s1) = []"
    by (cases "eventBus ?s1") (simp_all add: deliver_def m1 microtasks_drain)
  have r: "run [Script [Initialize, Initialize], Message Load, Script [Initialize]] ?s0 =
           run [Script [Initialize], Message Load] ?s0"
  proof -
    have e1: "perform Initialize ?s1 = ?s1"
      using i1 by (intro perform_Initialize_again) simp
    have e2: "drain ?s1 = ?s1" using m1 by (rule drain_idle)
    have e3: "perform Initialize (deliver Load ?s1) = deliver Load ?s1"
      using i1 by (intro perform_Initialize_again) (simp add: init_deliver)
    have e4: "drain (deliver Load ?s1) = deliver Load ?s1" using m2 by (rule drain_idle)
    show ?thesis
      using e1 e2 e3 e4 by (simp add: run_def)
  qed
  show "sent (buses (run [Script [Initialize, Initialize], Message Load, Script [Initialize]]
                           (VbrickEmbed_new url cfg)) 1) =
              [Publish ''authenticated'' (JObj [(''token'', tok)])]"
    unfolding r using tok by (rule load_event_succeeds(2))
  show "promises (run [Script [Initialize, Initialize], Message Load, Script [Initialize]]
                        (VbrickEmbed_new url cfg)) 2 = Fulfilled"
    unfolding r using tok by (rule load_event_succeeds(1))
  show "length (container (run [Script [Initialize, Initialize], Message Load,
                                    Script [Initialize]] (VbrickEmbed_new url cfg))) = 1"
    unfolding r using tok by (rule load_event_succeeds(3))
qed

theorem initialize_memoized_witness:
  "init (snd (initialize (VbrickEmbed_new ''u'' (sampleConfig\<lparr>token := Some accessToken\<rparr>)))) =
     Some 2 \<and>
   initialize (run [Script [On ''load'' 0, Initialize], Message Load, Elapse 5, Script [Initialize, Play]]
                 (snd (initialize (VbrickEmbed_new ''u'' (sampleConfig\<lparr>token := Some accessToken\<rparr>))))) =
     (2, run [Script [On ''load'' 0, Initialize], Message Load, Elapse 5, Script [Initialize, Play]]
           (snd (initialize (VbrickEmbed_new ''u'' (sampleConfig\<lparr>token := Some accessToken\<rparr>))))) \<and>
   sent (buses (run [Script [Initialize, Initialize], Message Load, Script [Initialize]]
                  (VbrickEmbed_new ''u'' (sampleConfig\<lparr>token := Some accessToken\<rparr>))) 1) =
     [Publish ''authenticated'' (JObj [(''token'', JObj [(''accessToken'', JStr ''abc'')])])]"
proof -
  let ?cfg = "sampleConfig\<lparr>token := Some accessToken\<rparr>"
  let ?s0 = "VbrickEmbed_new ''u'' ?cfg"
  let ?ts = "[Script [On ''load'' 0, Initialize], Message Load, Elapse 5, Script [Initialize, Play]]"
  have h1: "init ?s0 = None" by (rule new_fields(1))
  have h2: "\<forall>t \<in> set ?ts. Destroy \<notin> set (callsOf t)" by simp
  have p: "fst (initialize ?s0) = 2"
    using initialize_None(1) [OF h1] by (simp add: new_fields)
  have tok: "initializeToken ?s0 = Inr (JObj [(''accessToken'', JStr ''abc'')])"
    by (simp add: initializeToken_def VbrickEmbed_new_def sampleConfig_def accessToken_def)
  note t = initialize_memoized [of ?s0 ?ts "''u''" ?cfg, OF h1 h2]
  show ?thesis
    using t tok unfolding p by simp
qed

text \<open>
  Claim C8. \<open>initializeToken\<close> resolves with no credential when the configuration has no
  token, resolves with \<open>{accessToken: token.value}\<close> for a token of type \<open>AccessToken\<close>,
  and rejects with \<open>'Unsupported token type'\<close> for the types \<open>JWT\<close> and
  \<open>GuestRegistration\<close>. It publishes nothing: when the token promise is rejected,
  \<open>updateToken\<close> goes on to reject its own promise and to do nothing else.
\<close>

theorem initializeToken_outcomes:
  "initializeToken s =
     (case token (config s) of
        None \<Rightarrow> Inr JUndefined
      | Some t \<Rightarrow>
          (case tokenType t of
             ACCESS_TOKEN \<Rightarrow> Inr (JObj [(''accessToken'', JStr (tokenValue t))])
           | JWT \<Rightarrow> Inl (Reason ''Unsupported token type'')
           | GUEST_REGISTRATION \<Rightarrow> Inl (Reason ''Unsupported token type''))) \<and>
   updateToken_resume p (Inl e) s = s\<lparr>promises := (promises s)(p := Rejected e)\<rparr>"
  by (simp add: initializeToken_def updateToken_resume_def updateToken_catch_def
        settlePromise_def split: option.split TokenType.split)

text \<open>
  Claim C9 (the code does not do this). No listener for \<open>volumeChanged\<close> is registered
  and no method writes \<open>_volume\<close>: whatever tasks run on a new embed, the \<open>volume\<close>
  getter still returns \<open>undefined\<close>, and a \<open>volumeChanged\<close> message leaves it as it was.
\<close>

theorem volume_never_updated:
  "volume (run ts (VbrickEmbed_new url cfg)) = None \<and>
   volume (deliver (VolumeChanged v) s) = volume s"
  by (simp add: volume_run deliver_fields) (simp add: VbrickEmbed_new_def)

text \<open>
  Claim C10. On an embed on which \<open>initialize\<close> was never called, whatever else ran,
  \<open>destroy\<close> throws a \<open>TypeError\<close> at \<open>this.iframe.remove()\<close> and changes nothing. Once
  \<open>initialize\<close> has run, \<open>destroy\<close> does not throw, also after further tasks, which
  may call \<open>destroy\<close> themselves.
\<close>

theorem destroy_before_initialize_throws:
  assumes "\<forall>t \<in> set ts. Initialize \<notin> set (callsOf t)"
  shows "destroy (run ts (VbrickEmbed_new url cfg)) =
           (Some (TypeError ''iframe''), run ts (VbrickEmbed_new url cfg)) \<and>
         fst (destroy (run ts' (perform Initialize (run ts (VbrickEmbed_new url cfg))))) = None"
proof -
  let ?s = "run ts (VbrickEmbed_new url cfg)"
  have b: "blank ?s" using assms blank_new by (rule blank_run)
  then have "attached (perform Initialize ?s)"
    by (simp add: attached_initialize blank_def)
  then have "attached (run ts' (perform Initialize ?s))" by (rule attached_run)
  with b show ?thesis by (simp add: destroy_blank destroy_attached)
qed

theorem destroy_before_initialize_throws_witness:
  "fst (destroy (run [Script [On ''load'' 0, Play]] (VbrickEmbed_new ''u'' sampleConfig))) =
     Some (TypeError ''iframe'') \<and>
   fst (destroy (run [Script [Destroy]] (perform Initialize
     (run [Script [On ''load'' 0, Play]] (VbrickEmbed_new ''u'' sampleConfig))))) = None"
  using destroy_before_initialize_throws
    [of "[Script [On ''load'' 0, Play]]" "''u''" sampleConfig "[Script [Destroy]]"]
  by simp




text \<open>
  Claim C6. In every state that a new embed reaches, while its bus is live: after a
  \<open>webcastLoaded\<close> message the cached \<open>info\<close> is the payload without its \<open>status\<close> field;
  it has no \<open>status\<close> field and every other field reads as in the payload.
\<close>

theorem webcastLoaded_info_without_status:
  assumes "s = run ts (VbrickEmbed_new url cfg)"
    and "eventBus s = Some b" and "\<not> isDestroyed (buses s b)"
  shows "info (deliver (WebcastLoaded e) s) = Some (filter (\<lambda>kv. fst kv \<noteq> ''status'') e) \<and>
         map_of (filter (\<lambda>kv. fst kv \<noteq> ''status'') e) ''status'' = None \<and>
         (\<forall>k. k \<noteq> ''status'' \<longrightarrow>
              map_of (filter (\<lambda>kv. fst kv \<noteq> ''status'') e) k = map_of e k)"
proof -
  have p: "plumbed s"
    unfolding assms(1) using plumbed_new by (rule plumbed_run)
  have i: "microtasks s = []"
    unfolding assms(1) using idle_new by (rule idle_run)
  have "applied (WebcastLoaded e) (deliver (WebcastLoaded e) s)"
    using p i assms(2,3) by (rule deliver_consumed(1)) simp
  then show ?thesis
    by (simp add: map_of_without)
qed

theorem webcastLoaded_info_without_status_witness:
  "info (deliver (WebcastLoaded [(''status'', JStr ''InProgress''), (''title'', JStr ''X'')])
      (run [Script [Initialize], Message Load] (VbrickEmbed_new ''u'' sampleConfig))) =
   Some [(''title'', JStr ''X'')]"
proof -
  let ?s = "run [Script [Initialize], Message Load] (VbrickEmbed_new ''u'' sampleConfig)"
  have e: "eventBus ?s = Some 1"
    by (simp add: model_defs bus_defs)
  have l: "\<not> isDestroyed (buses ?s 1)"
    by (simp add: model_defs bus_defs)
  show ?thesis
    using webcastLoaded_info_without_status [OF refl e l,
        of "[(''status'', JStr ''InProgress''), (''title'', JStr ''X'')]"]
    by simp
qed

text \<open>
  Claim C2 (the code does not do this). \<open>on(E, L)\<close> registers a new closure around \<open>L\<close>
  on the bus, and \<open>off(E, L)\<close> asks the bus to remove \<open>L\<close> itself, which the bus does not
  hold: after \<open>on\<close> and \<open>off\<close> with the same listener, a later \<open>playerStatusChanged\<close>
  message still calls the listener. In every state with a bus, the closure that \<open>on\<close>
  registered is still registered after \<open>off\<close>.
\<close>

theorem off_does_not_remove_listener:
  "calls (run [Script [Initialize, On ''playerStatusChanged'' 0, Off ''playerStatusChanged'' 0],
               Message (PlayerStatusChanged Playing), Elapse 0]
            (VbrickEmbed_new ''u'' sampleConfig)) =
     [\<lparr>callee = 0, payload = PlayerStatusChanged Playing, observedStatus = Playing\<rparr>] \<and>
   (case eventBus s of
      None \<Rightarrow> True
    | Some b \<Rightarrow> (ev, Deferred l) \<in> set (handlers (buses (snd (off ev l (snd (on ev l s)))) b)))"
proof
  show "calls (run [Script [Initialize, On ''playerStatusChanged'' 0, Off ''playerStatusChanged'' 0],
               Message (PlayerStatusChanged Playing), Elapse 0]
            (VbrickEmbed_new ''u'' sampleConfig)) =
     [\<lparr>callee = 0, payload = PlayerStatusChanged Playing, observedStatus = Playing\<rparr>]"
    by (simp add: model_defs bus_defs)
  show "case eventBus s of
      None \<Rightarrow> True
    | Some b \<Rightarrow> (ev, Deferred l) \<in> set (handlers (buses (snd (off ev l (snd (on ev l s)))) b))"
    by (simp add: on_def off_def bus_defs in_set_remove1 split: option.split)
qed



text \<open>
  Claim C4. \<open>updateToken(T)\<close> stores \<open>T\<close> inside the call, before anything is published or
  awaited, and no later task that does not call \<open>updateToken\<close> changes the stored
  token. When the awaited confirmation is rejected with any error, the \<open>error\<close> event
  or a timeout, the promise of the call is rejected with that error and the
  configuration is left as it is. On a loaded embed: the promise of \<open>updateToken(T)\<close> is
  pending after the call, a remote \<open>error\<close> event rejects it with that event, and the
  token is still \<open>T\<close>.
\<close>

theorem updateToken_apply_then_confirm:
  assumes "\<forall>t \<in> set ts. \<forall>c \<in> set (callsOf t). \<not> isUpdateToken c"
  shows "token (config (snd (updateToken T s))) = Some T \<and>
         token (config (run ts (step (Script [UpdateToken T]) s))) = Some T \<and>
         promises (react (UpdateTokenAwait p) (Inl e) s') p = Rejected e \<and>
         config (react (UpdateTokenAwait p) (Inl e) s') = config s' \<and>
         (tokenType T = ACCESS_TOKEN \<longrightarrow>
            fst (updateToken T (run [Script [Initialize], Message Load]
                                  (VbrickEmbed_new url sampleConfig))) = 5 \<and>
            promises (run [Script [Initialize], Message Load, Script [UpdateToken T]]
                        (VbrickEmbed_new url sampleConfig)) 5 = Pending \<and>
            promises (run [Script [Initialize], Message Load, Script [UpdateToken T],
                           Message (ErrorEvent msg)]
                        (VbrickEmbed_new url sampleConfig)) 5 = Rejected (Remote (ErrorEvent msg)) \<and>
            token (config (run [Script [Initialize], Message Load, Script [UpdateToken T],
                                Message (ErrorEvent msg)]
                             (VbrickEmbed_new url sampleConfig))) = Some T)"
proof -
  have a: "token (config (snd (updateToken T s))) = Some T"
    by (simp add: updateToken_def Let_def)
  have "config (run ts (step (Script [UpdateToken T]) s)) = config (step (Script [UpdateToken T]) s)"
    using assms by (rule config_run)
  then have b: "token (config (run ts (step (Script [UpdateToken T]) s))) = Some T"
    using a by (simp add: drain_fields)
  have c: "promises (react (UpdateTokenAwait p) (Inl e) s') p = Rejected e \<and>
           config (react (UpdateTokenAwait p) (Inl e) s') = config s'"
    by (simp add: updateToken_catch_def settlePromise_def)
  have d: "tokenType T = ACCESS_TOKEN \<longrightarrow>
            fst (updateToken T (run [Script [Initialize], Message Load]
                                  (VbrickEmbed_new url sampleConfig))) = 5 \<and>
            promises (run [Script [Initialize], Message Load, Script [UpdateToken T]]
                        (VbrickEmbed_new url sampleConfig)) 5 = Pending \<and>
            promises (run [Script [Initialize], Message Load, Script [UpdateToken T],
                           Message (ErrorEvent msg)]
                        (VbrickEmbed_new url sampleConfig)) 5 = Rejected (Remote (ErrorEvent msg)) \<and>
            token (config (run [Script [Initialize], Message Load, Script [UpdateToken T],
                                Message (ErrorEvent msg)]
                             (VbrickEmbed_new url sampleConfig))) = Some T"
    by (simp add: model_defs bus_defs)
  show ?thesis using a b c d by blast
qed

theorem updateToken_apply_then_confirm_witness:
  "token (config (run [Message (ErrorEvent ''denied'')]
      (step (Script [UpdateToken accessToken])
         (run [Script [Initialize], Message Load] (VbrickEmbed_new ''u'' sampleConfig))))) =
     Some accessToken \<and>
   promises (run [Script [Initialize], Message Load, Script [UpdateToken accessToken],
                  Message (ErrorEvent ''denied'')]
               (VbrickEmbed_new ''u'' sampleConfig)) 5 = Rejected (Remote (ErrorEvent ''denied''))"
proof -
  have h: "\<forall>t \<in> set [Message (ErrorEvent ''denied'')]. \<forall>c \<in> set (callsOf t). \<not> isUpdateToken c"
    by simp
  have k: "tokenType accessToken = ACCESS_TOKEN"
    by (simp add: accessToken_def)
  show ?thesis
    using updateToken_apply_then_confirm [OF h, of accessToken
        "run [Script [Initialize], Message Load] (VbrickEmbed_new ''u'' sampleConfig)"
        _ _ _ "''u''" "''denied''"] k
    by blast
qed

text \<open>
  Claim C7. Every kind of handshake failure ends in the rejection of the promise of
  \<open>initialize\<close> with that error, the status \<open>Error\<close>, one published synthetic error
  event and one emitted local error.
  A token of an unsupported type: in every state in which the embed is not initialised,
  at the end of the script that calls \<open>initialize\<close>.
  A failure of the wait for \<open>load\<close>, by the \<open>error\<close> event or by the timer: in every
  state with a live bus in which that wait is pending, when the wait is settled with
  the failure; and, on a new embed, a remote \<open>error\<close> message and the expiry of the
  configured timeout do settle it so.
  The \<open>catch\<close> callback, which every failure of the chain reaches, has the four effects
  in every state with a live bus.
\<close>

theorem handshake_failure_effects:
  "(\<forall>e. init s = None \<and> microtasks s = [] \<and> initializeToken s = Inl e \<longrightarrow>
      promises (step (Script [Initialize]) s) (fst (initialize s)) = Rejected e \<and>
      playerStatus (step (Script [Initialize]) s) = Error \<and>
      eventBus (step (Script [Initialize]) s) = Some (Suc (fresh s)) \<and>
      sent (buses (step (Script [Initialize]) s) (Suc (fresh s))) =
        [PublishError ''initializationFailed''] \<and>
      localErrors (buses (step (Script [Initialize]) s) (Suc (fresh s))) =
        [(''Error loading embed content'', e)]) \<and>
   (\<forall>w a tok tm b. map_of (awaits s) w = Some a \<and> cont a = InitAll p (Inr tok) tm \<and>
      microtasks s = [] \<and> eventBus s = Some b \<and> \<not> isDestroyed (buses s b) \<longrightarrow>
      promises (drain (settle w (Inl err) s)) p = Rejected err \<and>
      playerStatus (drain (settle w (Inl err) s)) = Error \<and>
      sent (buses (drain (settle w (Inl err) s)) b) =
        sent (buses s b) @ [PublishError ''initializationFailed''] \<and>
      localErrors (buses (drain (settle w (Inl err) s)) b) =
        localErrors (buses s b) @ [(''Error loading embed content'', err)]) \<and>
   (\<forall>tok. initializeToken (VbrickEmbed_new url cfg) = Inr tok \<longrightarrow>
      handshakeFailed (run [Script [Initialize], Message (ErrorEvent msg)] (VbrickEmbed_new url cfg))
        (Remote (ErrorEvent msg))) \<and>
   (\<forall>tok t. initializeToken (VbrickEmbed_new url cfg) = Inr tok \<and>
      timeoutSeconds cfg = Some t \<and> 0 < t \<longrightarrow>
      handshakeFailed (run [Script [Initialize], Elapse (nat (t * 1000))] (VbrickEmbed_new url cfg))
        TimedOut) \<and>
   (\<forall>b. eventBus s = Some b \<and> \<not> isDestroyed (buses s b) \<longrightarrow>
      playerStatus (initialize_catch p err s) = Error \<and>
      sent (buses (initialize_catch p err s) b) =
        sent (buses s b) @ [PublishError ''initializationFailed''] \<and>
      localErrors (buses (initialize_catch p err s) b) =
        localErrors (buses s b) @ [(''Error loading embed content'', err)] \<and>
      promises (initialize_catch p err s) p = Rejected err)"
proof (intro conjI allI impI)
  fix e
  assume a: "init s = None \<and> microtasks s = [] \<and> initializeToken s = Inl e"
  then have a1: "init s = None" and a2: "microtasks s = []" and a3: "initializeToken s = Inl e"
    by simp_all
  note g = token_rejection_general [OF a1 a2 a3]
  show "promises (step (Script [Initialize]) s) (fst (initialize s)) = Rejected e" by (rule g(1))
  show "playerStatus (step (Script [Initialize]) s) = Error" by (rule g(2))
  show "eventBus (step (Script [Initialize]) s) = Some (Suc (fresh s))" by (rule g(3))
  show "sent (buses (step (Script [Initialize]) s) (Suc (fresh s))) =
        [PublishError ''initializationFailed'']" by (rule g(4))
  show "localErrors (buses (step (Script [Initialize]) s) (Suc (fresh s))) =
        [(''Error loading embed content'', e)]" by (rule g(5))
next
  fix w a tok tm b
  assume h: "map_of (awaits s) w = Some a \<and> cont a = InitAll p (Inr tok) tm \<and>
      microtasks s = [] \<and> eventBus s = Some b \<and> \<not> isDestroyed (buses s b)"
  then have h1: "map_of (awaits s) w = Some a" and h2: "cont a = InitAll p (Inr tok) tm"
    and h3: "microtasks s = []" and h4: "eventBus s = Some b"
    and h5: "\<not> isDestroyed (buses s b)"
    by simp_all
  note f = await_failure [OF h1 h2 h3 h4 h5, of err]
  show "promises (drain (settle w (Inl err) s)) p = Rejected err" by (rule f(5))
  show "playerStatus (drain (settle w (Inl err) s)) = Error" by (rule f(2))
  show "sent (buses (drain (settle w (Inl err) s)) b) =
        sent (buses s b) @ [PublishError ''initializationFailed'']" by (rule f(3))
  show "localErrors (buses (drain (settle w (Inl err) s)) b) =
        localErrors (buses s b) @ [(''Error loading embed content'', err)]" by (rule f(4))
next
  fix tok
  assume "initializeToken (VbrickEmbed_new url cfg) = Inr tok"
  then show "handshakeFailed
      (run [Script [Initialize], Message (ErrorEvent msg)] (VbrickEmbed_new url cfg))
      (Remote (ErrorEvent msg))"
    by (rule error_event_fails)
next
  fix tok t
  assume "initializeToken (VbrickEmbed_new url cfg) = Inr tok \<and>
      timeoutSeconds cfg = Some t \<and> 0 < t"
  then show "handshakeFailed
      (run [Script [Initialize], Elapse (nat (t * 1000))] (VbrickEmbed_new url cfg)) TimedOut"
    using load_timeout_fails [of url cfg tok t] by blast
next
  fix b
  assume a: "eventBus s = Some b \<and> \<not> isDestroyed (buses s b)"
  then have b: "eventBus s = Some b" and l: "\<not> isDestroyed (buses s b)" by simp_all
  note c = initialize_catch_effects [OF b l, of p err]
  show "playerStatus (initialize_catch p err s) = Error" by (rule c(1))
  show "sent (buses (initialize_catch p err s) b) =
        sent (buses s b) @ [PublishError ''initializationFailed'']" by (rule c(2))
  show "localErrors (buses (initialize_catch p err s) b) =
        localErrors (buses s b) @ [(''Error loading embed content'', err)]" by (rule c(3))
  show "promises (initialize_catch p err s) p = Rejected err" by (rule c(4))
qed

theorem handshake_failure_effects_witness:
  "promises (step (Script [Initialize])
       (VbrickEmbed_new ''u'' (sampleConfig\<lparr>token := Some jwtToken\<rparr>))) 2 =
     Rejected (Reason ''Unsupported token type'') \<and>
   playerStatus (step (Script [Initialize])
       (VbrickEmbed_new ''u'' (sampleConfig\<lparr>token := Some jwtToken\<rparr>))) = Error \<and>
   sent (buses (step (Script [Initialize])
       (VbrickEmbed_new ''u'' (sampleConfig\<lparr>token := Some jwtToken\<rparr>))) 1) =
     [PublishError ''initializationFailed''] \<and>
   handshakeFailed (run [Script [Initialize], Message (ErrorEvent ''bad'')]
      (VbrickEmbed_new ''u'' (sampleConfig\<lparr>timeoutSeconds := Some 30\<rparr>)))
      (Remote (ErrorEvent ''bad'')) \<and>
   handshakeFailed (run [Script [Initialize], Elapse 30000]
      (VbrickEmbed_new ''u'' (sampleConfig\<lparr>timeoutSeconds := Some 30\<rparr>))) TimedOut"
proof -
  let ?j = "VbrickEmbed_new ''u'' (sampleConfig\<lparr>token := Some jwtToken\<rparr>)"
  let ?c = "sampleConfig\<lparr>timeoutSeconds := Some 30\<rparr>"
  have j: "init ?j = None \<and> microtasks ?j = [] \<and>
           initializeToken ?j = Inl (Reason ''Unsupported token type'')"
    by (simp add: initializeToken_def VbrickEmbed_new_def jwtToken_def)
  have f: "fst (initialize ?j) = 2" "fresh ?j = 0"
    by (simp_all add: initialize_None(1) VbrickEmbed_new_def numeral_2_eq_2)
  have k: "initializeToken (VbrickEmbed_new ''u'' ?c) = Inr JUndefined"
    by (simp add: initializeToken_def VbrickEmbed_new_def sampleConfig_def)
  have t: "timeoutSeconds ?c = Some 30 \<and> (0::int) < 30"
    by simp
  have a: "promises (step (Script [Initialize]) ?j) 2 = Rejected (Reason ''Unsupported token type'') \<and>
           playerStatus (step (Script [Initialize]) ?j) = Error \<and>
           sent (buses (step (Script [Initialize]) ?j) 1) = [PublishError ''initializationFailed'']"
    using handshake_failure_effects [of ?j _ _ _ _ _] j f by (simp del: step.simps)
  have b: "handshakeFailed (run [Script [Initialize], Message (ErrorEvent ''bad'')]
             (VbrickEmbed_new ''u'' ?c)) (Remote (ErrorEvent ''bad''))"
    using handshake_failure_effects [of _ _ _ "''u''" ?c "''bad''"] k by blast
  have c: "handshakeFailed (run [Script [Initialize], Elapse 30000] (VbrickEmbed_new ''u'' ?c))
             TimedOut"
    using handshake_failure_effects [of _ _ _ "''u''" ?c "''bad''"] k t by (auto simp del: One_nat_def)
  show ?thesis using a b c by blast
qed

end
